theory Spec2Isabelle
  imports Main "HOL-Library.Word" "HOL-Library.Multiset" "HOL-Library.Sublist"
begin

section \<open>redis-save-manager: data and the outside world\<close>

text \<open>
  The program is one Go file, \<^verbatim>\<open>redis-save-manager.go\<close>. It talks to redis servers, reads
  the clock and waits on channels. None of that is pure, so the embedding passes a
  \<open>world\<close> through every function: the current time and the trace of everything the program
  has done so far, each entry stamped with the time at which it completed. What the outside
  answers (how long a network call takes, what it replies, which of two ready channels a
  \<^verbatim>\<open>select\<close> takes) comes from an oracle \<open>env\<close> that may depend on the whole history, so every
  theorem quantified over \<open>env\<close> holds for every behaviour of network and scheduler.
\<close>

type_synonym int64 = "64 word"

text \<open>\<^verbatim>\<open>time.Duration\<close> is an int64 count of nanoseconds.\<close>

definition Second :: int64 where
  "Second = 1000000000"

definition Minute :: int64 where
  "Minute = 60 * Second"

text \<open>
  Go's \<^verbatim>\<open>error\<close> values that occur: \<^verbatim>\<open>context.DeadlineExceeded\<close>, the value made by
  \<^verbatim>\<open>errors.New\<close>, and errors that come from the operating system or the redis client
  (only their message is kept). A nil error is \<open>None\<close> of \<open>error option\<close>.
\<close>

datatype error = DeadlineExceeded | ErrorsNew string | ExtError string

datatype command = LASTSAVE | BGSAVE | CONFIG_SET_SAVE_EMPTY

datatype wake = WakeDone | WakeChan

datatype logline =
    LogErr string error
  | LogSaved string int
  | LogDeadline int64
  | LogFatal error

datatype event =
    EvDial string int64 "string option"
  | EvInt string command "string + int64"
  | EvErr string command "string option"
  | EvClose string
  | EvWake wake
  | EvLog logline

type_synonym history = "(int \<times> event) list"

record world =
  now :: int
  trace :: history

record env =
  dial_env :: "history \<Rightarrow> string \<Rightarrow> nat \<times> string option"
  int_env :: "history \<Rightarrow> string \<Rightarrow> command \<Rightarrow> nat \<times> (string + int64)"
  err_env :: "history \<Rightarrow> string \<Rightarrow> command \<Rightarrow> nat \<times> string option"
  pick_env :: "history \<Rightarrow> bool"

text \<open>A loop that is still running when the fuel is used up is \<open>Pending\<close>.\<close>

datatype 'a status = Pending | Ret 'a

text \<open>How a \<^verbatim>\<open>for\<close> body leaves: it falls through to the code after it, or the function returns.\<close>

datatype 'a flow = Continue | Return 'a

subsection \<open>Primitives of the libraries\<close>

definition emit :: "event \<Rightarrow> world \<Rightarrow> world" where
  "emit e w = w\<lparr>trace := trace w @ [(now w, e)]\<rparr>"

definition elapse :: "nat \<Rightarrow> world \<Rightarrow> world" where
  "elapse d w = w\<lparr>now := now w + int d\<rparr>"

text \<open>\<^verbatim>\<open>redis.DialTimeout("tcp", addr, timeout)\<close>: takes some time, then connects or fails.\<close>

definition DialTimeout :: "env \<Rightarrow> string \<Rightarrow> int64 \<Rightarrow> world \<Rightarrow> string option \<times> world" where
  "DialTimeout E addr timeout w =
     (case dial_env E (trace w) addr of
        (d, r) \<Rightarrow> (r, emit (EvDial addr timeout r) (elapse d w)))"

text \<open>\<^verbatim>\<open>conn.Cmd(c).Int64()\<close>: an integer reply, or an error (transport, redis, or parse).\<close>

definition Cmd_Int64 :: "env \<Rightarrow> string \<Rightarrow> command \<Rightarrow> world \<Rightarrow> (string + int64) \<times> world" where
  "Cmd_Int64 E addr c w =
     (case int_env E (trace w) addr c of
        (d, r) \<Rightarrow> (r, emit (EvInt addr c r) (elapse d w)))"

text \<open>\<^verbatim>\<open>conn.Cmd(c).Err\<close>: nil or an error.\<close>

definition Cmd_Err :: "env \<Rightarrow> string \<Rightarrow> command \<Rightarrow> world \<Rightarrow> string option \<times> world" where
  "Cmd_Err E addr c w =
     (case err_env E (trace w) addr c of
        (d, r) \<Rightarrow> (r, emit (EvErr addr c r) (elapse d w)))"

definition Close :: "string \<Rightarrow> world \<Rightarrow> world" where
  "Close addr w = emit (EvClose addr) w"

definition Printf :: "logline \<Rightarrow> world \<Rightarrow> world" where
  "Printf l w = emit (EvLog l) w"

text \<open>
  The context made by \<^verbatim>\<open>context.WithTimeout\<close>: its \<^verbatim>\<open>Done()\<close> channel is closed from the
  deadline on, and \<^verbatim>\<open>Err()\<close> is then \<^verbatim>\<open>DeadlineExceeded\<close>.
\<close>

record ctx =
  deadline :: int

definition WithTimeout :: "int64 \<Rightarrow> world \<Rightarrow> ctx" where
  "WithTimeout d w = \<lparr>deadline = now w + sint d\<rparr>"

definition ctx_Done :: "ctx \<Rightarrow> world \<Rightarrow> bool" where
  "ctx_Done c w = (deadline c \<le> now w)"

definition ctx_Err :: "ctx \<Rightarrow> world \<Rightarrow> error option" where
  "ctx_Err c w = (if ctx_Done c w then Some DeadlineExceeded else None)"

text \<open>
  \<^verbatim>\<open>time.NewTicker(d)\<close>: the channel \<^verbatim>\<open>t.C\<close> holds a tick from \<open>next_tick\<close> on. Ticks come
  every \<open>period\<close>; the channel holds one, so ticks that find it full are dropped.
\<close>

record ticker =
  period :: int
  next_tick :: int

definition NewTicker :: "int64 \<Rightarrow> world \<Rightarrow> ticker" where
  "NewTicker d w = \<lparr>period = sint d, next_tick = now w + sint d\<rparr>"

definition tick_recv :: "ticker \<Rightarrow> int \<Rightarrow> ticker" where
  "tick_recv t at =
     t\<lparr>next_tick := next_tick t + period t * ((at - next_tick t) div period t + 1)\<rparr>"

text \<open>
  \<^verbatim>\<open>select { case <-ctx.Done(): ...; case <-ch: ... }\<close> where \<open>ch\<close> becomes ready at time
  \<open>fire\<close>. The select sleeps until the first of the two is ready; when both are ready at
  that moment Go picks one at random, here the oracle picks.
\<close>

definition select_wait :: "env \<Rightarrow> ctx \<Rightarrow> int \<Rightarrow> world \<Rightarrow> wake \<times> world" where
  "select_wait E c fire w =
     (let t = max (now w) (min (deadline c) fire);
          k = (if deadline c \<le> t \<and> fire \<le> t
               then (if pick_env E (trace w) then WakeChan else WakeDone)
               else if deadline c \<le> t then WakeDone else WakeChan)
      in (k, emit (EvWake k) (w\<lparr>now := t\<rparr>)))"

section \<open>The program\<close>

subsection \<open>disablePersistence\<close>

definition disablePersistence :: "env \<Rightarrow> string \<Rightarrow> world \<Rightarrow> error option \<times> world" where
  "disablePersistence E addr w =
     (case DialTimeout E addr (5 * Second) w of
        (Some err, w1) \<Rightarrow> (Some (ExtError err), w1)
      | (None, w1) \<Rightarrow>
          (case Cmd_Err E addr CONFIG_SET_SAVE_EMPTY w1 of
             (r, w2) \<Rightarrow> (map_option ExtError r, Close addr w2)))"

subsection \<open>saveBlocking\<close>

text \<open>The \<^verbatim>\<open>for { select { ... } }\<close> of saveBlocking; one unit of fuel per iteration.\<close>

fun saveBlocking_loop ::
  "nat \<Rightarrow> env \<Rightarrow> ctx \<Rightarrow> string \<Rightarrow> int64 \<Rightarrow> ticker \<Rightarrow> world \<Rightarrow> error option status \<times> world" where
  "saveBlocking_loop 0 E c addr prev t w = (Pending, w)"
| "saveBlocking_loop (Suc n) E c addr prev t w =
     (case select_wait E c (next_tick t) w of
        (WakeDone, w1) \<Rightarrow> (Ret (ctx_Err c w1), w1)
      | (WakeChan, w1) \<Rightarrow>
          (case Cmd_Int64 E addr LASTSAVE w1 of
             (Inl err, w2) \<Rightarrow> (Ret (Some (ExtError err)), w2)
           | (Inr cur, w2) \<Rightarrow>
               if cur \<noteq> prev then (Ret None, w2)
               else saveBlocking_loop n E c addr prev (tick_recv t (now w1)) w2))"

text \<open>
  The deferred \<^verbatim>\<open>conn.Close()\<close> runs on every return after a successful dial. A call that is
  still polling when the fuel ends has not returned, and its connection is still open.
\<close>

definition saveBlocking ::
  "nat \<Rightarrow> env \<Rightarrow> ctx \<Rightarrow> string \<Rightarrow> world \<Rightarrow> error option status \<times> world" where
  "saveBlocking n E c addr w =
     (case DialTimeout E addr (15 * Second) w of
        (Some err, w1) \<Rightarrow> (Ret (Some (ExtError err)), w1)
      | (None, w1) \<Rightarrow>
          (case Cmd_Int64 E addr LASTSAVE w1 of
             (Inl err, w2) \<Rightarrow> (Ret (Some (ExtError err)), Close addr w2)
           | (Inr prev, w2) \<Rightarrow>
               (case Cmd_Err E addr BGSAVE w2 of
                  (Some err, w3) \<Rightarrow> (Ret (Some (ExtError err)), Close addr w3)
                | (None, w3) \<Rightarrow>
                    (case saveBlocking_loop n E c addr prev (NewTicker (10 * Second) w3) w3 of
                       (Pending, w4) \<Rightarrow> (Pending, w4)
                     | (Ret r, w4) \<Rightarrow> (Ret r, Close addr w4)))))"

subsection \<open>do\<close>

text \<open>The first loop of \<^verbatim>\<open>do\<close>: disablePersistence on every address, errors logged.\<close>

fun do_disable :: "env \<Rightarrow> string list \<Rightarrow> world \<Rightarrow> world" where
  "do_disable E [] w = w"
| "do_disable E (addr # addrs) w =
     (case disablePersistence E addr w of
        (Some err, w1) \<Rightarrow> do_disable E addrs (Printf (LogErr addr err) w1)
      | (None, w1) \<Rightarrow> do_disable E addrs w1)"

text \<open>The inner \<^verbatim>\<open>for _, addr := range addrs\<close> of the endless loop: one pass.\<close>

fun do_pass ::
  "nat \<Rightarrow> env \<Rightarrow> ctx \<Rightarrow> string list \<Rightarrow> world \<Rightarrow> error option flow status \<times> world" where
  "do_pass n E c [] w = (Ret Continue, w)"
| "do_pass n E c (addr # addrs) w =
     (let begin = now w in
      case saveBlocking n E c addr w of
        (Pending, w1) \<Rightarrow> (Pending, w1)
      | (Ret r, w1) \<Rightarrow>
          (let w2 = (case r of
                       Some err \<Rightarrow> Printf (LogErr addr err) w1
                     | None \<Rightarrow> Printf (LogSaved addr (now w1 - begin)) w1)
           in if ctx_Done c w2 then (Ret (Return (ctx_Err c w2)), w2)
              else do_pass n E c addrs w2))"

text \<open>The endless \<^verbatim>\<open>for\<close>: a pass, then the wait of 10 seconds raced against the context.\<close>

fun do_loop ::
  "nat \<Rightarrow> env \<Rightarrow> ctx \<Rightarrow> string list \<Rightarrow> world \<Rightarrow> error option status \<times> world" where
  "do_loop 0 E c addrs w = (Pending, w)"
| "do_loop (Suc n) E c addrs w =
     (case do_pass (Suc n) E c addrs w of
        (Pending, w1) \<Rightarrow> (Pending, w1)
      | (Ret (Return r), w1) \<Rightarrow> (Ret r, w1)
      | (Ret Continue, w1) \<Rightarrow>
          (case select_wait E c (now w1 + sint (10 * Second)) w1 of
             (WakeDone, w2) \<Rightarrow> (Ret (ctx_Err c w2), w2)
           | (WakeChan, w2) \<Rightarrow> do_loop n E c addrs w2))"

definition do ::
  "nat \<Rightarrow> env \<Rightarrow> ctx \<Rightarrow> string list \<Rightarrow> world \<Rightarrow> error option status \<times> world" where
  "do n E c addrs w =
     (if length addrs = 0 then (Ret (Some (ErrorsNew ''empty addresses'')), w)
      else do_loop n E c addrs (do_disable E addrs w))"

subsection \<open>readLines\<close>

text \<open>
  What \<^verbatim>\<open>os.Open\<close> and \<^verbatim>\<open>bufio.Scanner\<close> give for a file name: an error on opening, or the
  lines the scanner yields (end-of-line markers already removed, as \<^verbatim>\<open>ScanLines\<close> does)
  and the error, if any, at which scanning stopped.
\<close>

record os_file =
  file_lines :: "string list"
  scan_err :: "string option"

type_synonym filesystem = "string \<Rightarrow> string + os_file"

text \<open>
  \<^verbatim>\<open>bytes.TrimSpace\<close> slices off all leading and trailing white space, as defined by
  Unicode: it decodes the bytes as UTF-8 and drops the runes for which
  \<^verbatim>\<open>unicode.IsSpace\<close> holds. These are the runes of white space, each in its UTF-8
  encoding: tab, line feed, vertical tab, form feed, carriage return, space, U+0085,
  U+00A0, U+1680, U+2000 to U+200A, U+2028, U+2029, U+202F, U+205F and U+3000. A byte
  sequence that is no valid encoding decodes to the error rune, which is no white space.
\<close>

definition space_runes :: "string list" where
  "space_runes =
     [[CHR 0x09], [CHR 0x0A], [CHR 0x0B], [CHR 0x0C], [CHR 0x0D], [CHR 0x20],
      [CHR 0xC2, CHR 0x85], [CHR 0xC2, CHR 0xA0],
      [CHR 0xE1, CHR 0x9A, CHR 0x80],
      [CHR 0xE2, CHR 0x80, CHR 0x80], [CHR 0xE2, CHR 0x80, CHR 0x81],
      [CHR 0xE2, CHR 0x80, CHR 0x82], [CHR 0xE2, CHR 0x80, CHR 0x83],
      [CHR 0xE2, CHR 0x80, CHR 0x84], [CHR 0xE2, CHR 0x80, CHR 0x85],
      [CHR 0xE2, CHR 0x80, CHR 0x86], [CHR 0xE2, CHR 0x80, CHR 0x87],
      [CHR 0xE2, CHR 0x80, CHR 0x88], [CHR 0xE2, CHR 0x80, CHR 0x89],
      [CHR 0xE2, CHR 0x80, CHR 0x8A],
      [CHR 0xE2, CHR 0x80, CHR 0xA8], [CHR 0xE2, CHR 0x80, CHR 0xA9],
      [CHR 0xE2, CHR 0x80, CHR 0xAF],
      [CHR 0xE2, CHR 0x81, CHR 0x9F],
      [CHR 0xE3, CHR 0x80, CHR 0x80]]"

text \<open>
  \<^verbatim>\<open>TrimLeftFunc\<close>: as long as the bytes start with one of the encodings \<open>es\<close>, drop it.
  Trimming on the right is the same on the reversed bytes with the reversed encodings.
\<close>

function trim_runes :: "string list \<Rightarrow> string \<Rightarrow> string" where
  "trim_runes es s =
     (case find (\<lambda>e. e \<noteq> [] \<and> prefix e s) es of
        None \<Rightarrow> s
      | Some e \<Rightarrow> trim_runes es (drop (length e) s))"
  by pat_completeness auto
termination
proof (relation "measure (\<lambda>(es, s). length s)")
  show "wf (measure (\<lambda>(es, s). length s))"
    by simp
next
  fix es :: "string list" and s e :: string
  assume "find (\<lambda>e. e \<noteq> [] \<and> prefix e s) es = Some e"
  then have "e \<noteq> []" and "prefix e s"
    by (auto simp: find_Some_iff)
  then have "length e \<le> length s" and "length e \<noteq> 0"
    by (auto simp: prefix_def)
  then have "length s - length e < length s"
    by arith
  then show "((es, drop (length e) s), (es, s)) \<in> measure (\<lambda>(es, s). length s)"
    by simp
qed

declare trim_runes.simps [simp del]

definition TrimSpace :: "string \<Rightarrow> string" where
  "TrimSpace s =
     rev (trim_runes (map rev space_runes) (rev (trim_runes space_runes s)))"

text \<open>The scanning loop appends the trimmed text of every line, whatever is left of it.\<close>

fun scan_loop :: "string list \<Rightarrow> string list \<Rightarrow> string list" where
  "scan_loop out [] = out"
| "scan_loop out (l # ls) = scan_loop (out @ [TrimSpace l]) ls"

definition readLines :: "filesystem \<Rightarrow> string \<Rightarrow> string list \<times> error option" where
  "readLines fs name =
     (case fs name of
        Inl err \<Rightarrow> ([], Some (ExtError err))
      | Inr f \<Rightarrow> (scan_loop [] (file_lines f), map_option ExtError (scan_err f)))"

subsection \<open>main\<close>

record args =
  Deadline :: int64
  Addresses :: string

text \<open>Lines 29 to 31: a deadline below one minute is raised to one minute.\<close>

definition main_deadline :: "args \<Rightarrow> args" where
  "main_deadline a = (if Deadline a <s Minute then a\<lparr>Deadline := Minute\<rparr> else a)"

text \<open>
  Lines 37 to 41. \<^verbatim>\<open>rand.Intn(n)\<close> returns a number in \<open>[0, n)\<close>: the \<open>k\<close>-th call returns the
  \<open>k\<close>-th draw \<open>rnd k\<close> of the source reduced into that range, so every value of the range
  can come out. The Go assignment \<^verbatim>\<open>a[i], a[j] = a[j], a[i]\<close> reads both sides first.
\<close>

definition Intn :: "(nat \<Rightarrow> nat) \<Rightarrow> nat \<Rightarrow> nat \<Rightarrow> nat" where
  "Intn rnd k n = rnd k mod n"

definition shuffle_step :: "(nat \<Rightarrow> nat) \<Rightarrow> nat \<Rightarrow> 'a list \<Rightarrow> 'a list" where
  "shuffle_step rnd i addrs =
     (let j = Intn rnd i (i + 1) in addrs[i := addrs ! j, j := addrs ! i])"

definition shuffle :: "(nat \<Rightarrow> nat) \<Rightarrow> 'a list \<Rightarrow> 'a list" where
  "shuffle rnd addrs = fold (shuffle_step rnd) [0..<length addrs] addrs"

text \<open>
  The process ends with status 0 when \<^verbatim>\<open>main\<close> returns and with status 1 after
  \<^verbatim>\<open>log.Fatal\<close>.
\<close>

datatype exit = Exit0 | Exit1

definition main ::
  "nat \<Rightarrow> filesystem \<Rightarrow> (nat \<Rightarrow> nat) \<Rightarrow> env \<Rightarrow> args \<Rightarrow> world \<Rightarrow> exit status \<times> world" where
  "main n fs rnd E a0 w =
     (let a = main_deadline a0 in
      case readLines fs (Addresses a) of
        (addrs, Some err) \<Rightarrow> (Ret Exit1, Printf (LogFatal err) w)
      | (addrs, None) \<Rightarrow>
          (let addrs' = shuffle rnd addrs;
               c = WithTimeout (Deadline a) w
           in case do n E c addrs' w of
                (Pending, w1) \<Rightarrow> (Pending, w1)
              | (Ret None, w1) \<Rightarrow> (Ret Exit0, w1)
              | (Ret (Some err), w1) \<Rightarrow>
                  if err = DeadlineExceeded
                  then (Ret Exit0, Printf (LogDeadline (Deadline a)) w1)
                  else (Ret Exit1, Printf (LogFatal err) w1)))"

section \<open>Reading a trace\<close>

text \<open>The events a run has added to the trace, in order, without their time stamps.\<close>

definition new_events :: "world \<Rightarrow> world \<Rightarrow> event list" where
  "new_events w w' = map snd (drop (length (trace w)) (trace w'))"

text \<open>The save trigger is the \<^verbatim>\<open>BGSAVE\<close> command; a read of the marker is \<^verbatim>\<open>LASTSAVE\<close>.\<close>

fun is_trigger :: "event \<Rightarrow> bool" where
  "is_trigger (EvErr a BGSAVE r) = True"
| "is_trigger e = False"

fun is_read :: "event \<Rightarrow> bool" where
  "is_read (EvInt a LASTSAVE q) = True"
| "is_read e = False"

text \<open>The values of the last-save marker that were read successfully, in order.\<close>

fun marker_reads :: "event list \<Rightarrow> int64 list" where
  "marker_reads [] = []"
| "marker_reads (EvInt a LASTSAVE (Inr v) # es) = v # marker_reads es"
| "marker_reads (e # es) = marker_reads es"

definition reads_before_trigger :: "event list \<Rightarrow> int64 list" where
  "reads_before_trigger es = marker_reads (takeWhile (\<lambda>e. \<not> is_trigger e) es)"

definition reads_after_trigger :: "event list \<Rightarrow> int64 list" where
  "reads_after_trigger es = marker_reads (dropWhile (\<lambda>e. \<not> is_trigger e) es)"

text \<open>The part of a stamped trace from the first save trigger on.\<close>

definition from_trigger :: "history \<Rightarrow> history" where
  "from_trigger h = dropWhile (\<lambda>e. \<not> is_trigger (snd e)) h"

text \<open>
  The connections that are open after a history: a successful dial opens one, \<^verbatim>\<open>Close\<close>
  closes it. A save attempt is in flight exactly while its connection is open.
\<close>

fun conn_step :: "string list \<Rightarrow> event \<Rightarrow> string list" where
  "conn_step s (EvDial a d None) = a # s"
| "conn_step s (EvClose a) = remove1 a s"
| "conn_step s e = s"

definition inflight :: "history \<Rightarrow> string list" where
  "inflight h = foldl conn_step [] (map snd h)"

text \<open>
  At every moment of a history at most one connection is open, and at the moment a save
  trigger is sent the only open connection is the one to the endpoint that receives it.
\<close>

definition one_at_a_time :: "history \<Rightarrow> bool" where
  "one_at_a_time h =
     (\<forall>p. prefix p h \<longrightarrow>
        length (inflight p) \<le> 1
        \<and> (\<forall>t b r. p \<noteq> [] \<and> last p = (t, EvErr b BGSAVE r) \<longrightarrow> inflight p = [b]))"

text \<open>The same check, run over the events that follow a history with open connections \<open>s\<close>.\<close>

fun ok_from :: "string list \<Rightarrow> history \<Rightarrow> bool" where
  "ok_from s [] = True"
| "ok_from s (e # es) =
     (length (conn_step s (snd e)) \<le> 1
      \<and> (\<forall>b r. snd e = EvErr b BGSAVE r \<longrightarrow> conn_step s (snd e) = [b])
      \<and> ok_from (conn_step s (snd e)) es)"

text \<open>The world after \<^verbatim>\<open>do\<close> has logged the outcome of one save attempt.\<close>

definition attempt_logged :: "string \<Rightarrow> int \<Rightarrow> error option \<Rightarrow> world \<Rightarrow> world" where
  "attempt_logged addr begin r w =
     (case r of
        Some err \<Rightarrow> Printf (LogErr addr err) w
      | None \<Rightarrow> Printf (LogSaved addr (now w - begin)) w)"

text \<open>What \<^verbatim>\<open>main\<close> does with the result of \<^verbatim>\<open>do\<close>, for a deadline \<open>d\<close> to print.\<close>

definition main_exit :: "int64 \<Rightarrow> error option status \<times> world \<Rightarrow> exit status \<times> world" where
  "main_exit d r =
     (case r of
        (Pending, w1) \<Rightarrow> (Pending, w1)
      | (Ret None, w1) \<Rightarrow> (Ret Exit0, w1)
      | (Ret (Some err), w1) \<Rightarrow>
          if err = DeadlineExceeded then (Ret Exit0, Printf (LogDeadline d) w1)
          else (Ret Exit1, Printf (LogFatal err) w1))"

text \<open>
  The endpoints on which disablePersistence was called, in order: it is the one caller of
  \<^verbatim>\<open>DialTimeout\<close> with 5 seconds.
\<close>

fun toggled :: "event list \<Rightarrow> string list" where
  "toggled [] = []"
| "toggled (EvDial a d r # es) = (if d = 5 * Second then a # toggled es else toggled es)"
| "toggled (e # es) = toggled es"

text \<open>A run starts with an empty trace.\<close>

definition start :: "int \<Rightarrow> world" where
  "start t0 = \<lparr>now = t0, trace = []\<rparr>"

subsection \<open>Environments for concrete runs\<close>

text \<open>
  Two sources of random draws for the shuffle: every draw is 0, and the \<open>k\<close>-th draw is
  \<open>k\<close>, with which the shuffle swaps every position with itself.
\<close>

definition draws_zero :: "nat \<Rightarrow> nat" where
  "draws_zero k = 0"

definition draws_same :: "nat \<Rightarrow> nat" where
  "draws_same k = k"

text \<open>
  Every call takes a millisecond and succeeds. The marker counts the ticks the program has
  received so far, halved: it changes between the first and the second poll of an attempt
  that starts on an even count.
\<close>

definition ticks_seen :: "history \<Rightarrow> nat" where
  "ticks_seen h = length (filter (\<lambda>e. snd e = EvWake WakeChan) h)"

definition env_saves :: env where
  "env_saves =
     \<lparr>dial_env = (\<lambda>h a. (1000000, None)),
      int_env = (\<lambda>h a k. (1000000, Inr (of_nat (100 + ticks_seen h div 2)))),
      err_env = (\<lambda>h a k. (1000000, None)),
      pick_env = (\<lambda>h. False)\<rparr>"

text \<open>The same, but the marker stays at 100 for ever: no save ever completes.\<close>

definition env_never_saves :: env where
  "env_never_saves =
     \<lparr>dial_env = (\<lambda>h a. (1000000, None)),
      int_env = (\<lambda>h a k. (1000000, Inr 100)),
      err_env = (\<lambda>h a k. (1000000, None)),
      pick_env = (\<lambda>h. False)\<rparr>"

text \<open>Every server accepts connections and answers, but rejects \<^verbatim>\<open>CONFIG SET\<close>.\<close>

definition env_config_rejected :: env where
  "env_config_rejected =
     \<lparr>dial_env = (\<lambda>h a. (1000000, None)),
      int_env = (\<lambda>h a k. (1000000, Inr (of_nat (100 + ticks_seen h)))),
      err_env = (\<lambda>h a k. (1000000, if k = CONFIG_SET_SAVE_EMPTY then Some ''ERR'' else None)),
      pick_env = (\<lambda>h. False)\<rparr>"

text \<open>
  Servers that are slow but within the client's timeouts: a connection takes 3 seconds, a
  command 4 seconds, and reading the marker fails after that time.
\<close>

definition env_slow :: env where
  "env_slow =
     \<lparr>dial_env = (\<lambda>h a. (3000000000, None)),
      int_env = (\<lambda>h a k. (4000000000, Inl ''connection reset by peer'')),
      err_env = (\<lambda>h a k. (4000000000, None)),
      pick_env = (\<lambda>h. False)\<rparr>"

text \<open>A file system with one file, \<^verbatim>\<open>hosts\<close>, that scans without error.\<close>

definition hosts_file :: "string list \<Rightarrow> filesystem" where
  "hosts_file ls =
     (\<lambda>name. if name = ''hosts'' then Inr \<lparr>file_lines = ls, scan_err = None\<rparr>
             else Inl ''no such file or directory'')"

section \<open>Facts about the primitives\<close>

lemma sint_Second: "sint Second = 1000000000"
  by (simp add: Second_def)

lemma sint_10_Second: "sint (10 * Second) = 10000000000"
  by (simp add: Second_def)

lemma trace_DialTimeout:
  "DialTimeout E a d w = (r, w1) \<Longrightarrow>
   trace w1 = trace w @ [(now w1, EvDial a d r)] \<and> now w \<le> now w1"
  by (auto simp: DialTimeout_def emit_def elapse_def split: prod.splits)

lemma trace_Cmd_Int64:
  "Cmd_Int64 E a k w = (r, w1) \<Longrightarrow>
   trace w1 = trace w @ [(now w1, EvInt a k r)] \<and> now w \<le> now w1"
  by (auto simp: Cmd_Int64_def emit_def elapse_def split: prod.splits)

lemma trace_Cmd_Err:
  "Cmd_Err E a k w = (r, w1) \<Longrightarrow>
   trace w1 = trace w @ [(now w1, EvErr a k r)] \<and> now w \<le> now w1"
  by (auto simp: Cmd_Err_def emit_def elapse_def split: prod.splits)

lemma trace_Close: "trace (Close a w) = trace w @ [(now w, EvClose a)]"
  by (simp add: Close_def emit_def)

lemma now_Close: "now (Close a w) = now w"
  by (simp add: Close_def emit_def)

lemma trace_Printf: "trace (Printf l w) = trace w @ [(now w, EvLog l)]"
  by (simp add: Printf_def emit_def)

lemma now_Printf: "now (Printf l w) = now w"
  by (simp add: Printf_def emit_def)

lemma trace_select_wait:
  "select_wait E c f w = (k, w1) \<Longrightarrow>
   trace w1 = trace w @ [(now w1, EvWake k)] \<and> now w \<le> now w1"
  by (auto simp: select_wait_def emit_def Let_def)

lemma select_wait_Done: "select_wait E c f w = (WakeDone, w1) \<Longrightarrow> ctx_Done c w1"
  by (auto simp: select_wait_def emit_def Let_def ctx_Done_def split: if_splits)

lemma select_wait_Chan: "select_wait E c f w = (WakeChan, w1) \<Longrightarrow> f \<le> now w1"
  by (auto simp: select_wait_def emit_def Let_def split: if_splits)

lemma marker_reads_append: "marker_reads (xs @ ys) = marker_reads xs @ marker_reads ys"
  by (induction xs rule: marker_reads.induct) simp_all

section \<open>The paths through saveBlocking\<close>

lemma saveBlocking_loop_Suc_cases:
  assumes "saveBlocking_loop (Suc n) E c addr prev t w = (r, w')"
  obtains
    (cancelled) w1 where
      "select_wait E c (next_tick t) w = (WakeDone, w1)"
      "r = Ret (Some DeadlineExceeded)" "w' = w1"
  | (read_failed) w1 err w2 where
      "select_wait E c (next_tick t) w = (WakeChan, w1)"
      "Cmd_Int64 E addr LASTSAVE w1 = (Inl err, w2)"
      "r = Ret (Some (ExtError err))" "w' = w2"
  | (changed) w1 cur w2 where
      "select_wait E c (next_tick t) w = (WakeChan, w1)"
      "Cmd_Int64 E addr LASTSAVE w1 = (Inr cur, w2)"
      "cur \<noteq> prev" "r = Ret None" "w' = w2"
  | (again) w1 w2 where
      "select_wait E c (next_tick t) w = (WakeChan, w1)"
      "Cmd_Int64 E addr LASTSAVE w1 = (Inr prev, w2)"
      "saveBlocking_loop n E c addr prev (tick_recv t (now w1)) w2 = (r, w')"
proof -
  obtain k w1 where sel: "select_wait E c (next_tick t) w = (k, w1)"
    by (cases "select_wait E c (next_tick t) w")
  obtain q w2 where rd: "Cmd_Int64 E addr LASTSAVE w1 = (q, w2)"
    by (cases "Cmd_Int64 E addr LASTSAVE w1")
  show thesis
  proof (cases k)
    case WakeDone
    with sel assms select_wait_Done [of E c "next_tick t" w w1] show thesis
      by (intro cancelled [of w1]) (auto simp: ctx_Err_def)
  next
    case WakeChan
    show thesis
    proof (cases q)
      case (Inl err)
      with sel WakeChan rd assms show thesis
        by (intro read_failed [of w1 err w2]) auto
    next
      case (Inr cur)
      show thesis
      proof (cases "cur = prev")
        case True
        with sel WakeChan rd Inr assms show thesis
          by (intro again [of w1 w2]) auto
      next
        case False
        with sel WakeChan rd Inr assms show thesis
          by (intro changed [of w1 cur w2]) auto
      qed
    qed
  qed
qed

lemma saveBlocking_cases:
  assumes "saveBlocking n E c addr w = (r, w')"
  obtains
    (dial_failed) err where
      "DialTimeout E addr (15 * Second) w = (Some err, w')"
      "r = Ret (Some (ExtError err))"
  | (read_failed) w1 err w2 where
      "DialTimeout E addr (15 * Second) w = (None, w1)"
      "Cmd_Int64 E addr LASTSAVE w1 = (Inl err, w2)"
      "r = Ret (Some (ExtError err))" "w' = Close addr w2"
  | (trigger_failed) w1 prev w2 err w3 where
      "DialTimeout E addr (15 * Second) w = (None, w1)"
      "Cmd_Int64 E addr LASTSAVE w1 = (Inr prev, w2)"
      "Cmd_Err E addr BGSAVE w2 = (Some err, w3)"
      "r = Ret (Some (ExtError err))" "w' = Close addr w3"
  | (polling) w1 prev w2 w3 where
      "DialTimeout E addr (15 * Second) w = (None, w1)"
      "Cmd_Int64 E addr LASTSAVE w1 = (Inr prev, w2)"
      "Cmd_Err E addr BGSAVE w2 = (None, w3)"
      "saveBlocking_loop n E c addr prev (NewTicker (10 * Second) w3) w3 = (Pending, w')"
      "r = Pending"
  | (polled) w1 prev w2 w3 x w4 where
      "DialTimeout E addr (15 * Second) w = (None, w1)"
      "Cmd_Int64 E addr LASTSAVE w1 = (Inr prev, w2)"
      "Cmd_Err E addr BGSAVE w2 = (None, w3)"
      "saveBlocking_loop n E c addr prev (NewTicker (10 * Second) w3) w3 = (Ret x, w4)"
      "r = Ret x" "w' = Close addr w4"
proof -
  obtain rd w1 where dial: "DialTimeout E addr (15 * Second) w = (rd, w1)"
    by (cases "DialTimeout E addr (15 * Second) w")
  obtain q w2 where rd: "Cmd_Int64 E addr LASTSAVE w1 = (q, w2)"
    by (cases "Cmd_Int64 E addr LASTSAVE w1")
  obtain rb w3 where bg: "Cmd_Err E addr BGSAVE w2 = (rb, w3)"
    by (cases "Cmd_Err E addr BGSAVE w2")
  show thesis
  proof (cases rd)
    case (Some err)
    with dial assms show thesis
      by (intro dial_failed [of err]) (auto simp: saveBlocking_def)
  next
    case None
    show thesis
    proof (cases q)
      case (Inl err)
      with dial None rd assms show thesis
        by (intro read_failed [of w1 err w2]) (auto simp: saveBlocking_def)
    next
      case (Inr prev)
      show thesis
      proof (cases rb)
        case (Some err)
        with dial None rd Inr bg assms show thesis
          by (intro trigger_failed [of w1 prev w2 err w3]) (auto simp: saveBlocking_def)
      next
        case None2: None
        obtain rl w4 where
          lp: "saveBlocking_loop n E c addr prev (NewTicker (10 * Second) w3) w3 = (rl, w4)"
          by (cases "saveBlocking_loop n E c addr prev (NewTicker (10 * Second) w3) w3")
        show thesis
        proof (cases rl)
          case Pending
          with dial None rd Inr bg None2 lp assms show thesis
            by (intro polling [of w1 prev w2 w3]) (auto simp: saveBlocking_def)
        next
          case (Ret x)
          with dial None rd Inr bg None2 lp assms show thesis
            by (intro polled [of w1 prev w2 w3 x w4]) (auto simp: saveBlocking_def)
        qed
      qed
    qed
  qed
qed

subsection \<open>The paths through the loops of do\<close>

lemma now_attempt_logged: "now (attempt_logged a b r w) = now w"
  by (simp add: attempt_logged_def now_Printf split: option.splits)

lemma trace_attempt_logged:
  "\<exists>l. trace (attempt_logged a b r w) = trace w @ [(now w, EvLog l)]"
  by (simp add: attempt_logged_def trace_Printf split: option.splits)

lemma ctx_Done_attempt_logged: "ctx_Done c (attempt_logged a b r w) = ctx_Done c w"
  by (simp add: ctx_Done_def now_attempt_logged)

lemma do_pass_Cons_cases:
  assumes "do_pass n E c (a # as) w = (r, w')"
  obtains
    (pending) "saveBlocking n E c a w = (Pending, w')" "r = Pending"
  | (abort) x w1 where
      "saveBlocking n E c a w = (Ret x, w1)" "ctx_Done c w1"
      "r = Ret (Return (Some DeadlineExceeded))" "w' = attempt_logged a (now w) x w1"
  | (continue) x w1 where
      "saveBlocking n E c a w = (Ret x, w1)" "\<not> ctx_Done c w1"
      "do_pass n E c as (attempt_logged a (now w) x w1) = (r, w')"
proof -
  obtain s w1 where sb: "saveBlocking n E c a w = (s, w1)"
    by (cases "saveBlocking n E c a w")
  show thesis
  proof (cases s)
    case Pending
    with sb assms show thesis by (intro pending) auto
  next
    case (Ret x)
    have eq: "(case x of Some err \<Rightarrow> Printf (LogErr a err) w1
        | None \<Rightarrow> Printf (LogSaved a (now w1 - now w)) w1) = attempt_logged a (now w) x w1"
      by (simp add: attempt_logged_def)
    show thesis
    proof (cases "ctx_Done c w1")
      case True
      with sb Ret assms eq show thesis
        by (intro abort [of x w1])
          (auto simp: Let_def ctx_Err_def ctx_Done_attempt_logged)
    next
      case False
      with sb Ret assms eq show thesis
        by (intro continue [of x w1])
          (auto simp: Let_def ctx_Done_attempt_logged)
    qed
  qed
qed

lemma do_loop_Suc_cases:
  assumes "do_loop (Suc n) E c addrs w = (r, w')"
  obtains
    (pending) "do_pass (Suc n) E c addrs w = (Pending, w')" "r = Pending"
  | (returned) x where "do_pass (Suc n) E c addrs w = (Ret (Return x), w')" "r = Ret x"
  | (cancelled) w1 where
      "do_pass (Suc n) E c addrs w = (Ret Continue, w1)"
      "select_wait E c (now w1 + sint (10 * Second)) w1 = (WakeDone, w')"
      "r = Ret (Some DeadlineExceeded)"
  | (again) w1 w2 where
      "do_pass (Suc n) E c addrs w = (Ret Continue, w1)"
      "select_wait E c (now w1 + sint (10 * Second)) w1 = (WakeChan, w2)"
      "do_loop n E c addrs w2 = (r, w')"
proof -
  obtain s w1 where dp: "do_pass (Suc n) E c addrs w = (s, w1)"
    by (cases "do_pass (Suc n) E c addrs w")
  obtain k w2 where sel: "select_wait E c (now w1 + sint (10 * Second)) w1 = (k, w2)"
    by (cases "select_wait E c (now w1 + sint (10 * Second)) w1")
  show thesis
  proof (cases s)
    case Pending
    with dp assms show thesis by (intro pending) auto
  next
    case (Ret f)
    show thesis
    proof (cases f)
      case (Return x)
      with dp Ret assms show thesis by (intro returned [of x]) auto
    next
      case Continue
      show thesis
      proof (cases k)
        case WakeDone
        with dp Ret Continue sel assms select_wait_Done [of E c _ w1 w2] show thesis
          by (intro cancelled [of w1]) (auto simp: ctx_Err_def)
      next
        case WakeChan
        with dp Ret Continue sel assms show thesis
          by (intro again [of w1 w2]) auto
      qed
    qed
  qed
qed

lemma do_pass_append:
  "do_pass n E c (pre @ rest) w =
     (case do_pass n E c pre w of
        (Ret Continue, w0) \<Rightarrow> do_pass n E c rest w0
      | other \<Rightarrow> other)"
proof (induction pre arbitrary: w)
  case Nil
  show ?case by simp
next
  case (Cons a pre)
  show ?case
    by (simp add: Cons.IH Let_def split: prod.splits status.splits flow.splits)
qed

section \<open>Evaluating concrete runs\<close>

text \<open>Fuel written as a numeral is unfolded one iteration at a time.\<close>

lemma saveBlocking_loop_numeral:
  "saveBlocking_loop (numeral k) E c addr prev t w =
     (case select_wait E c (next_tick t) w of
        (WakeDone, w1) \<Rightarrow> (Ret (ctx_Err c w1), w1)
      | (WakeChan, w1) \<Rightarrow>
          (case Cmd_Int64 E addr LASTSAVE w1 of
             (Inl err, w2) \<Rightarrow> (Ret (Some (ExtError err)), w2)
           | (Inr cur, w2) \<Rightarrow>
               if cur \<noteq> prev then (Ret None, w2)
               else saveBlocking_loop (pred_numeral k) E c addr prev (tick_recv t (now w1)) w2))"
  by (simp add: numeral_eq_Suc)

lemma do_loop_numeral:
  "do_loop (numeral k) E c addrs w =
     (case do_pass (numeral k) E c addrs w of
        (Pending, w1) \<Rightarrow> (Pending, w1)
      | (Ret (Return r), w1) \<Rightarrow> (Ret r, w1)
      | (Ret Continue, w1) \<Rightarrow>
          (case select_wait E c (now w1 + sint (10 * Second)) w1 of
             (WakeDone, w2) \<Rightarrow> (Ret (ctx_Err c w2), w2)
           | (WakeChan, w2) \<Rightarrow> do_loop (pred_numeral k) E c addrs w2))"
  by (simp add: numeral_eq_Suc)

text \<open>
  The primitives are unfolded only on a world that is written out, so that nothing is
  computed about a world that is not known yet.
\<close>

lemma DialTimeout_eval:
  "DialTimeout E a d \<lparr>now = t, trace = h\<rparr> =
     (case dial_env E h a of
        (dur, r) \<Rightarrow> (r, \<lparr>now = t + int dur, trace = h @ [(t + int dur, EvDial a d r)]\<rparr>))"
  by (simp add: DialTimeout_def emit_def elapse_def split: prod.splits)

lemma Cmd_Int64_eval:
  "Cmd_Int64 E a k \<lparr>now = t, trace = h\<rparr> =
     (case int_env E h a k of
        (dur, r) \<Rightarrow> (r, \<lparr>now = t + int dur, trace = h @ [(t + int dur, EvInt a k r)]\<rparr>))"
  by (simp add: Cmd_Int64_def emit_def elapse_def split: prod.splits)

lemma Cmd_Err_eval:
  "Cmd_Err E a k \<lparr>now = t, trace = h\<rparr> =
     (case err_env E h a k of
        (dur, r) \<Rightarrow> (r, \<lparr>now = t + int dur, trace = h @ [(t + int dur, EvErr a k r)]\<rparr>))"
  by (simp add: Cmd_Err_def emit_def elapse_def split: prod.splits)

lemma Close_eval: "Close a \<lparr>now = t, trace = h\<rparr> = \<lparr>now = t, trace = h @ [(t, EvClose a)]\<rparr>"
  by (simp add: Close_def emit_def)

lemma Printf_eval: "Printf l \<lparr>now = t, trace = h\<rparr> = \<lparr>now = t, trace = h @ [(t, EvLog l)]\<rparr>"
  by (simp add: Printf_def emit_def)

lemma ctx_Done_eval: "ctx_Done c \<lparr>now = t, trace = h\<rparr> = (deadline c \<le> t)"
  by (simp add: ctx_Done_def)

lemma ctx_Err_eval:
  "ctx_Err c \<lparr>now = t, trace = h\<rparr> = (if deadline c \<le> t then Some DeadlineExceeded else None)"
  by (simp add: ctx_Err_def ctx_Done_def)

lemma NewTicker_eval:
  "NewTicker d \<lparr>now = t, trace = h\<rparr> = \<lparr>period = sint d, next_tick = t + sint d\<rparr>"
  by (simp add: NewTicker_def)

lemma tick_recv_eval:
  "tick_recv \<lparr>period = p, next_tick = n\<rparr> (numeral k) =
     \<lparr>period = p, next_tick = n + p * ((numeral k - n) div p + 1)\<rparr>"
  by (simp add: tick_recv_def)

lemma select_wait_eval:
  "select_wait E c fire \<lparr>now = t, trace = h\<rparr> =
     (let t' = max t (min (deadline c) fire);
          k = (if deadline c \<le> t' \<and> fire \<le> t'
               then (if pick_env E h then WakeChan else WakeDone)
               else if deadline c \<le> t' then WakeDone else WakeChan)
      in (k, \<lparr>now = t', trace = h @ [(t', EvWake k)]\<rparr>))"
  by (simp only: select_wait_def emit_def Let_def world.select_convs world.update_convs)

lemma attempt_logged_eval:
  "attempt_logged a b r \<lparr>now = t, trace = h\<rparr> =
     (case r of
        Some err \<Rightarrow> \<lparr>now = t, trace = h @ [(t, EvLog (LogErr a err))]\<rparr>
      | None \<Rightarrow> \<lparr>now = t, trace = h @ [(t, EvLog (LogSaved a (t - b)))]\<rparr>)"
  by (simp add: attempt_logged_def Printf_def emit_def split: option.splits)

text \<open>The rules a concrete run is evaluated with.\<close>

lemmas run_defs = saveBlocking_def disablePersistence_def do_def start_def Second_def Let_def
  trim_runes.simps TrimSpace_def space_runes_def readLines_def hosts_file_def
  ticks_seen_def DialTimeout_eval Cmd_Int64_eval Cmd_Err_eval Close_eval Printf_eval
  ctx_Done_eval ctx_Err_eval NewTicker_eval tick_recv_eval select_wait_eval
  saveBlocking_loop_numeral do_loop_numeral

text \<open>One endpoint whose save completes between the first and the second poll.\<close>

lemma run_saves:
  "saveBlocking 2 env_saves \<lparr>deadline = 60000000000\<rparr> ''10.0.0.1:6379'' (start 0) =
   (Ret None, \<lparr>now = 20004000000, trace =
       [(1000000, EvDial ''10.0.0.1:6379'' 15000000000 None),
        (2000000, EvInt ''10.0.0.1:6379'' LASTSAVE (Inr 100)),
        (3000000, EvErr ''10.0.0.1:6379'' BGSAVE None),
        (10003000000, EvWake WakeChan),
        (10004000000, EvInt ''10.0.0.1:6379'' LASTSAVE (Inr 100)),
        (20003000000, EvWake WakeChan),
        (20004000000, EvInt ''10.0.0.1:6379'' LASTSAVE (Inr 101)),
        (20004000000, EvClose ''10.0.0.1:6379'')]\<rparr>)"
  by (simp add: run_defs env_saves_def)

section \<open>The Save Waiter succeeds exactly when the marker has changed\<close>

lemma loop_reads:
  "saveBlocking_loop n E c addr prev t w = (r, w') \<Longrightarrow>
   \<exists>es. trace w' = trace w @ es \<and> (\<forall>e \<in> set es. \<not> is_trigger (snd e))
     \<and> ((r = Ret None) = (\<exists>cur \<in> set (marker_reads (map snd es)). cur \<noteq> prev))"
proof (induction n arbitrary: t w)
  case 0
  then show ?case by simp
next
  case (Suc n)
  obtain k w1 where sel: "select_wait E c (next_tick t) w = (k, w1)"
    by (cases "select_wait E c (next_tick t) w")
  note tr1 = trace_select_wait [OF sel]
  show ?case
  proof (cases k)
    case WakeDone
    with sel Suc.prems select_wait_Done [of E c "next_tick t" w w1]
    have "r = Ret (Some DeadlineExceeded)" "w' = w1"
      by (auto simp: ctx_Err_def)
    with tr1 show ?thesis by simp
  next
    case WakeChan
    obtain q w2 where rd: "Cmd_Int64 E addr LASTSAVE w1 = (q, w2)"
      by (cases "Cmd_Int64 E addr LASTSAVE w1")
    note tr2 = trace_Cmd_Int64 [OF rd]
    show ?thesis
    proof (cases q)
      case (Inl err)
      with sel WakeChan rd Suc.prems have "r = Ret (Some (ExtError err))" "w' = w2"
        by auto
      with tr1 tr2 Inl show ?thesis by simp
    next
      case (Inr cur)
      show ?thesis
      proof (cases "cur = prev")
        case False
        with sel WakeChan rd Inr Suc.prems have "r = Ret None" "w' = w2"
          by auto
        with tr1 tr2 Inr False show ?thesis by simp
      next
        case True
        with sel WakeChan rd Inr Suc.prems
        have "saveBlocking_loop n E c addr prev (tick_recv t (now w1)) w2 = (r, w')"
          by auto
        from Suc.IH [OF this] obtain es where
          es: "trace w' = trace w2 @ es" "\<forall>e \<in> set es. \<not> is_trigger (snd e)"
            "(r = Ret None) = (\<exists>cur \<in> set (marker_reads (map snd es)). cur \<noteq> prev)"
          by blast
        let ?es = "[(now w1, EvWake k), (now w2, EvInt addr LASTSAVE q)] @ es"
        have "trace w' = trace w @ ?es" using es(1) tr1 tr2 by simp
        moreover have "\<forall>e \<in> set ?es. \<not> is_trigger (snd e)" using es(2) by simp
        moreover have "(r = Ret None) = (\<exists>cur \<in> set (marker_reads (map snd ?es)). cur \<noteq> prev)"
          using es(3) Inr True WakeChan by simp
        ultimately show ?thesis by blast
      qed
    qed
  qed
qed


lemma saveBlocking_iff:
  assumes run: "saveBlocking n E c addr w = (r, w')"
  shows "(r = Ret None) =
     (\<exists>prev cur. reads_before_trigger (new_events w w') = [prev]
        \<and> cur \<in> set (reads_after_trigger (new_events w w')) \<and> cur \<noteq> prev)"
proof -
  obtain rd w1 where dial: "DialTimeout E addr (15 * Second) w = (rd, w1)"
    by (cases "DialTimeout E addr (15 * Second) w")
  note tr1 = trace_DialTimeout [OF dial, THEN conjunct1]
  show ?thesis
  proof (cases rd)
    case (Some err)
    with run dial have "r = Ret (Some (ExtError err))" "w' = w1"
      by (auto simp: saveBlocking_def)
    with tr1 show ?thesis
      by (simp add: new_events_def reads_before_trigger_def)
  next
    case None
    obtain q w2 where rd: "Cmd_Int64 E addr LASTSAVE w1 = (q, w2)"
      by (cases "Cmd_Int64 E addr LASTSAVE w1")
    note tr2 = trace_Cmd_Int64 [OF rd, THEN conjunct1]
    show ?thesis
    proof (cases q)
      case (Inl err)
      with run dial None rd have "r = Ret (Some (ExtError err))" "w' = Close addr w2"
        by (auto simp: saveBlocking_def)
      with tr1 tr2 Inl show ?thesis
        by (simp add: new_events_def reads_before_trigger_def trace_Close)
    next
      case (Inr prev)
      obtain rb w3 where bg: "Cmd_Err E addr BGSAVE w2 = (rb, w3)"
        by (cases "Cmd_Err E addr BGSAVE w2")
      note tr3 = trace_Cmd_Err [OF bg, THEN conjunct1]
      show ?thesis
      proof (cases rb)
        case (Some err)
        with run dial None rd Inr bg have "r = Ret (Some (ExtError err))" "w' = Close addr w3"
          by (auto simp: saveBlocking_def)
        with tr1 tr2 tr3 Inr show ?thesis
          by (simp add: new_events_def reads_before_trigger_def reads_after_trigger_def trace_Close)
      next
        case None2: None
        obtain rl w4 where
          lp: "saveBlocking_loop n E c addr prev (NewTicker (10 * Second) w3) w3 = (rl, w4)"
          by (cases "saveBlocking_loop n E c addr prev (NewTicker (10 * Second) w3) w3")
        from loop_reads [OF lp] obtain es where
          es: "trace w4 = trace w3 @ es" "\<forall>e \<in> set es. \<not> is_trigger (snd e)"
            "(rl = Ret None) = (\<exists>cur \<in> set (marker_reads (map snd es)). cur \<noteq> prev)"
          by blast
        have before: "\<And>tl. reads_before_trigger
            (EvDial addr (15 * Second) rd # EvInt addr LASTSAVE (Inr prev)
               # EvErr addr BGSAVE rb # tl) = [prev]"
          by (simp add: reads_before_trigger_def)
        have after: "\<And>tl. reads_after_trigger
            (EvDial addr (15 * Second) rd # EvInt addr LASTSAVE (Inr prev)
               # EvErr addr BGSAVE rb # tl) = marker_reads tl"
          by (simp add: reads_after_trigger_def)
        show ?thesis
        proof (cases rl)
          case Pending
          with run dial None rd Inr bg None2 lp have rw: "r = Pending" "w' = w4"
            by (auto simp: saveBlocking_def)
          have "new_events w w' = EvDial addr (15 * Second) rd # EvInt addr LASTSAVE (Inr prev)
               # EvErr addr BGSAVE rb # map snd es"
            using rw es(1) tr1 tr2 tr3 Inr by (simp add: new_events_def)
          with rw es(3) Pending before after show ?thesis by simp
        next
          case (Ret x)
          with run dial None rd Inr bg None2 lp have rw: "r = Ret x" "w' = Close addr w4"
            by (auto simp: saveBlocking_def)
          have "new_events w w' = EvDial addr (15 * Second) rd # EvInt addr LASTSAVE (Inr prev)
               # EvErr addr BGSAVE rb # (map snd es @ [EvClose addr])"
            using rw es(1) tr1 tr2 tr3 Inr by (simp add: new_events_def trace_Close)
          with rw es(3) Ret before after show ?thesis by (auto simp: marker_reads_append)
        qed
      qed
    qed
  qed
qed

lemma loop_never_success:
  "\<forall>h d cur. int_env E h addr LASTSAVE = (d, Inr cur) \<longrightarrow> cur = prev \<Longrightarrow>
   fst (saveBlocking_loop n E c addr prev t w) \<noteq> Ret None"
proof (induction n arbitrary: t w)
  case 0
  then show ?case by simp
next
  case (Suc n)
  obtain k w1 where sel: "select_wait E c (next_tick t) w = (k, w1)"
    by (cases "select_wait E c (next_tick t) w")
  show ?case
  proof (cases k)
    case WakeDone
    with sel select_wait_Done [of E c "next_tick t" w w1] show ?thesis
      by (simp add: ctx_Err_def)
  next
    case WakeChan
    obtain d q where env: "int_env E (trace w1) addr LASTSAVE = (d, q)"
      by (cases "int_env E (trace w1) addr LASTSAVE")
    show ?thesis
    proof (cases q)
      case (Inl err)
      with sel WakeChan env show ?thesis by (simp add: Cmd_Int64_def)
    next
      case (Inr cur)
      with env Suc.prems have "cur = prev" by blast
      with sel WakeChan env Inr Suc.IH [OF Suc.prems] show ?thesis
        by (simp add: Cmd_Int64_def)
    qed
  qed
qed

lemma saveBlocking_never_success:
  assumes "\<forall>h d cur. int_env E h addr LASTSAVE = (d, Inr cur) \<longrightarrow> cur = v"
  shows "fst (saveBlocking n E c addr w) \<noteq> Ret None"
proof
  assume "fst (saveBlocking n E c addr w) = Ret None"
  then obtain w' where "saveBlocking n E c addr w = (Ret None, w')"
    by (cases "saveBlocking n E c addr w") simp
  then obtain w1 :: world and d prev t w3 w4 where
    env: "int_env E (trace w1) addr LASTSAVE = (d, Inr prev)" and
    lp: "saveBlocking_loop n E c addr prev t w3 = (Ret None, w4)"
    by (auto simp: saveBlocking_def Cmd_Int64_def
        split: prod.splits option.splits sum.splits status.splits)
  from env assms have "prev = v" by blast
  with assms loop_never_success [of E addr prev n c t w3] lp show False by simp
qed


text \<open>
  Claim C1. For every endpoint, environment and amount of fuel, saveBlocking returns nil
  (success) if and only if some read of the last-save marker made after the save trigger
  differs from the one read made before the trigger; any difference counts. And when the
  environment never answers a read with anything but one value, saveBlocking does not
  return success, however many polls it is given.
\<close>

theorem saveBlocking_success_iff_marker_changed:
  "((fst (saveBlocking n E c addr w) = Ret None) =
      (\<exists>prev cur.
          reads_before_trigger (new_events w (snd (saveBlocking n E c addr w))) = [prev]
          \<and> cur \<in> set (reads_after_trigger (new_events w (snd (saveBlocking n E c addr w))))
          \<and> cur \<noteq> prev))
   \<and> ((\<forall>h d cur. int_env E h addr LASTSAVE = (d, Inr cur) \<longrightarrow> cur = v)
        \<longrightarrow> (\<forall>m. fst (saveBlocking m E c addr w) \<noteq> Ret None))"
proof (intro conjI impI allI)
  show "(fst (saveBlocking n E c addr w) = Ret None) =
      (\<exists>prev cur.
          reads_before_trigger (new_events w (snd (saveBlocking n E c addr w))) = [prev]
          \<and> cur \<in> set (reads_after_trigger (new_events w (snd (saveBlocking n E c addr w))))
          \<and> cur \<noteq> prev)"
    by (rule saveBlocking_iff) simp
next
  fix m
  assume "\<forall>h d cur. int_env E h addr LASTSAVE = (d, Inr cur) \<longrightarrow> cur = v"
  then show "fst (saveBlocking m E c addr w) \<noteq> Ret None"
    by (rule saveBlocking_never_success)
qed

theorem saveBlocking_success_iff_marker_changed_witness:
  "fst (saveBlocking 2 env_saves \<lparr>deadline = 60000000000\<rparr> ''10.0.0.1:6379'' (start 0)) = Ret None
   \<and> reads_before_trigger (new_events (start 0)
        (snd (saveBlocking 2 env_saves \<lparr>deadline = 60000000000\<rparr> ''10.0.0.1:6379'' (start 0)))) = [100]
   \<and> reads_after_trigger (new_events (start 0)
        (snd (saveBlocking 2 env_saves \<lparr>deadline = 60000000000\<rparr> ''10.0.0.1:6379'' (start 0)))) = [100, 101]
   \<and> fst (saveBlocking 6 env_never_saves \<lparr>deadline = 60000000000\<rparr> ''10.0.0.1:6379'' (start 0))
        \<noteq> Ret None"
proof -
  have fixed: "\<forall>h d cur. int_env env_never_saves h ''10.0.0.1:6379'' LASTSAVE = (d, Inr cur) \<longrightarrow> cur = 100"
    by (simp add: env_never_saves_def)
  have "fst (saveBlocking 6 env_never_saves \<lparr>deadline = 60000000000\<rparr> ''10.0.0.1:6379'' (start 0))
        \<noteq> Ret None"
    using saveBlocking_success_iff_marker_changed
      [of 6 env_never_saves "\<lparr>deadline = 60000000000\<rparr>" "''10.0.0.1:6379''" "start 0" 100] fixed
    by blast
  moreover have "fst (saveBlocking 2 env_saves \<lparr>deadline = 60000000000\<rparr> ''10.0.0.1:6379'' (start 0)) = Ret None"
    using saveBlocking_success_iff_marker_changed
      [of 2 env_saves "\<lparr>deadline = 60000000000\<rparr>" "''10.0.0.1:6379''" "start 0" 100]
    by (simp add: run_saves)
  moreover have "reads_before_trigger (new_events (start 0)
        (snd (saveBlocking 2 env_saves \<lparr>deadline = 60000000000\<rparr> ''10.0.0.1:6379'' (start 0)))) = [100]"
    unfolding run_saves by (simp add: new_events_def start_def reads_before_trigger_def)
  moreover have "reads_after_trigger (new_events (start 0)
        (snd (saveBlocking 2 env_saves \<lparr>deadline = 60000000000\<rparr> ''10.0.0.1:6379'' (start 0)))) = [100, 101]"
    unfolding run_saves by (simp add: new_events_def start_def reads_after_trigger_def)
  ultimately show ?thesis by blast
qed

section \<open>No poll before the first tick\<close>

lemma in_takeWhile_snoc:
  "e \<in> set (takeWhile p (xs @ [x])) \<Longrightarrow> e \<in> set (takeWhile p xs) \<or> e = x"
proof (induct xs)
  case Nil
  then show ?case by (cases "p x") simp_all
next
  case (Cons a xs)
  then show ?case by (cases "p a") auto
qed

lemma Ball_takeWhile_snoc:
  assumes "\<forall>e \<in> set (takeWhile p xs). q e" and "q x"
  shows "\<forall>e \<in> set (takeWhile p (xs @ [x])). q e"
  using assms in_takeWhile_snoc [of _ p xs x] by blast

lemma period_tick_recv: "period (tick_recv t at) = period t"
  by (simp add: tick_recv_def)

lemma next_tick_tick_recv:
  assumes "0 \<le> period t" "next_tick t \<le> at"
  shows "next_tick t \<le> next_tick (tick_recv t at)"
proof -
  have "0 \<le> (at - next_tick t) div period t"
    using assms by (simp add: div_int_pos_iff)
  then have "0 \<le> period t * ((at - next_tick t) div period t + 1)"
    using assms(1) by simp
  then show ?thesis by (simp add: tick_recv_def)
qed

lemma loop_timing:
  "saveBlocking_loop n E c addr prev t w = (r, w') \<Longrightarrow> 0 \<le> period t \<Longrightarrow>
   \<exists>es. trace w' = trace w @ es
     \<and> (\<forall>e \<in> set es. is_read (snd e) \<longrightarrow> next_tick t \<le> fst e)
     \<and> (\<forall>e \<in> set (takeWhile (\<lambda>e. snd e \<noteq> EvWake WakeChan) es). \<not> is_read (snd e))
     \<and> (r = Ret None \<longrightarrow> next_tick t \<le> now w')"
proof (induction n arbitrary: t w)
  case 0
  then show ?case by simp
next
  case (Suc n)
  from Suc.prems(1) show ?case
  proof (cases rule: saveBlocking_loop_Suc_cases)
    case (cancelled w1)
    with trace_select_wait [OF cancelled(1)] show ?thesis by simp
  next
    case (read_failed w1 err w2)
    with trace_select_wait [OF read_failed(1)] trace_Cmd_Int64 [OF read_failed(2)]
      select_wait_Chan [OF read_failed(1)]
    show ?thesis by simp
  next
    case (changed w1 cur w2)
    with trace_select_wait [OF changed(1)] trace_Cmd_Int64 [OF changed(2)]
      select_wait_Chan [OF changed(1)]
    show ?thesis by simp
  next
    case (again w1 w2)
    note s1 = trace_select_wait [OF again(1)] and s2 = trace_Cmd_Int64 [OF again(2)]
      and s3 = select_wait_Chan [OF again(1)]
    have p: "0 \<le> period (tick_recv t (now w1))"
      using Suc.prems(2) by (simp add: period_tick_recv)
    have nt: "next_tick t \<le> next_tick (tick_recv t (now w1))"
      using Suc.prems(2) s3 by (rule next_tick_tick_recv)
    from Suc.IH [OF again(3) p] obtain es where
      es: "trace w' = trace w2 @ es"
        "\<forall>e \<in> set es. is_read (snd e) \<longrightarrow> next_tick (tick_recv t (now w1)) \<le> fst e"
        "r = Ret None \<longrightarrow> next_tick (tick_recv t (now w1)) \<le> now w'"
      by blast
    let ?es = "[(now w1, EvWake WakeChan), (now w2, EvInt addr LASTSAVE (Inr prev))] @ es"
    have "trace w' = trace w @ ?es" using es(1) s1 s2 by simp
    moreover have "\<forall>e \<in> set ?es. is_read (snd e) \<longrightarrow> next_tick t \<le> fst e"
      using es(2) nt s2 s3 by auto
    moreover have "\<forall>e \<in> set (takeWhile (\<lambda>e. snd e \<noteq> EvWake WakeChan) ?es). \<not> is_read (snd e)"
      by simp
    moreover have "r = Ret None \<longrightarrow> next_tick t \<le> now w'"
      using es(3) nt by auto
    ultimately show ?thesis by blast
  qed
qed

lemma saveBlocking_timing:
  assumes run: "saveBlocking n E c addr w = (r, w')"
  shows "case from_trigger (drop (length (trace w)) (trace w')) of
      [] \<Rightarrow> r \<noteq> Ret None
    | (t0, e0) # rest \<Rightarrow>
        (\<forall>e \<in> set rest. is_read (snd e) \<longrightarrow> t0 + 10000000000 \<le> fst e)
        \<and> (\<forall>e \<in> set (takeWhile (\<lambda>e. snd e \<noteq> EvWake WakeChan) rest). \<not> is_read (snd e))
        \<and> (r = Ret None \<longrightarrow> t0 + 10000000000 \<le> now w')"
  using run
proof (cases rule: saveBlocking_cases)
  case (dial_failed err)
  with trace_DialTimeout [OF dial_failed(1)] show ?thesis
    by (simp add: from_trigger_def)
next
  case (read_failed w1 err w2)
  with trace_DialTimeout [OF read_failed(1)] trace_Cmd_Int64 [OF read_failed(2)] show ?thesis
    by (simp add: from_trigger_def trace_Close)
next
  case (trigger_failed w1 prev w2 err w3)
  with trace_DialTimeout [OF trigger_failed(1)] trace_Cmd_Int64 [OF trigger_failed(2)]
    trace_Cmd_Err [OF trigger_failed(3)] show ?thesis
    by (simp add: from_trigger_def trace_Close)
next
  case (polling w1 prev w2 w3)
  have p: "0 \<le> period (NewTicker (10 * Second) w3)"
    by (simp add: NewTicker_def sint_10_Second)
  from loop_timing [OF polling(4) p] obtain es where
    es: "trace w' = trace w3 @ es"
      "\<forall>e \<in> set es. is_read (snd e) \<longrightarrow> now w3 + 10000000000 \<le> fst e"
      "\<forall>e \<in> set (takeWhile (\<lambda>e. snd e \<noteq> EvWake WakeChan) es). \<not> is_read (snd e)"
    by (auto simp: NewTicker_def sint_10_Second)
  have "from_trigger (drop (length (trace w)) (trace w')) = (now w3, EvErr addr BGSAVE None) # es"
    using es(1) trace_DialTimeout [OF polling(1)] trace_Cmd_Int64 [OF polling(2)]
      trace_Cmd_Err [OF polling(3)]
    by (simp add: from_trigger_def)
  with es polling(5) show ?thesis by simp
next
  case (polled w1 prev w2 w3 x w4)
  have p: "0 \<le> period (NewTicker (10 * Second) w3)"
    by (simp add: NewTicker_def sint_10_Second)
  from loop_timing [OF polled(4) p] obtain es where
    es: "trace w4 = trace w3 @ es"
      "\<forall>e \<in> set es. is_read (snd e) \<longrightarrow> now w3 + 10000000000 \<le> fst e"
      "\<forall>e \<in> set (takeWhile (\<lambda>e. snd e \<noteq> EvWake WakeChan) es). \<not> is_read (snd e)"
      "x = None \<longrightarrow> now w3 + 10000000000 \<le> now w4"
    by (auto simp: NewTicker_def sint_10_Second)
  have "from_trigger (drop (length (trace w)) (trace w')) =
      (now w3, EvErr addr BGSAVE None) # (es @ [(now w4, EvClose addr)])"
    using es(1) polled(6) trace_DialTimeout [OF polled(1)] trace_Cmd_Int64 [OF polled(2)]
      trace_Cmd_Err [OF polled(3)]
    by (simp add: from_trigger_def trace_Close)
  moreover have "\<forall>e \<in> set (takeWhile (\<lambda>e. snd e \<noteq> EvWake WakeChan) (es @ [(now w4, EvClose addr)])).
      \<not> is_read (snd e)"
    using es(3) by (rule Ball_takeWhile_snoc) simp
  ultimately show ?thesis using es(2,4) polled(5,6) by (auto simp: now_Close)
qed

text \<open>
  Claim C10. In every call of saveBlocking, every read of the marker made after the save
  trigger completes at least 10 seconds (the period of the ticker, which is created after
  the trigger has returned) after the trigger completed; no such read happens before the
  first tick is received; and if the call returns success, it returns at least 10 seconds
  after the trigger completed. A call that issued no trigger does not return success.
\<close>

theorem saveBlocking_polls_after_first_tick:
  assumes "saveBlocking n E c addr w = (r, w')"
  shows "case from_trigger (drop (length (trace w)) (trace w')) of
      [] \<Rightarrow> r \<noteq> Ret None
    | (t0, e0) # rest \<Rightarrow>
        (\<forall>e \<in> set rest. is_read (snd e) \<longrightarrow> t0 + 10000000000 \<le> fst e)
        \<and> (\<forall>e \<in> set (takeWhile (\<lambda>e. snd e \<noteq> EvWake WakeChan) rest). \<not> is_read (snd e))
        \<and> (r = Ret None \<longrightarrow> t0 + 10000000000 \<le> now w')"
  using assms by (rule saveBlocking_timing)

theorem saveBlocking_polls_after_first_tick_witness:
  "fst (saveBlocking 2 env_saves \<lparr>deadline = 60000000000\<rparr> ''10.0.0.1:6379'' (start 0)) = Ret None
   \<and> hd (from_trigger (trace (snd
        (saveBlocking 2 env_saves \<lparr>deadline = 60000000000\<rparr> ''10.0.0.1:6379'' (start 0)))))
      = (3000000, EvErr ''10.0.0.1:6379'' BGSAVE None)
   \<and> 3000000 + 10000000000
      \<le> now (snd (saveBlocking 2 env_saves \<lparr>deadline = 60000000000\<rparr> ''10.0.0.1:6379'' (start 0)))"
  using saveBlocking_polls_after_first_tick [OF run_saves]
  unfolding run_saves by (simp add: from_trigger_def start_def)

section \<open>One save attempt at a time\<close>

lemma inflight_Nil: "inflight [] = []"
  by (simp add: inflight_def)

lemma inflight_snoc: "inflight (h @ [e]) = conn_step (inflight h) (snd e)"
  by (simp add: inflight_def)

lemma inflight_append: "inflight (h @ es) = foldl conn_step (inflight h) (map snd es)"
  by (simp add: inflight_def)

lemma one_at_a_time_Nil: "one_at_a_time []"
  by (simp add: one_at_a_time_def inflight_def)

lemma one_at_a_time_snoc:
  "one_at_a_time (h @ [e]) \<longleftrightarrow>
     one_at_a_time h \<and> length (inflight (h @ [e])) \<le> 1
     \<and> (\<forall>t b r. e = (t, EvErr b BGSAVE r) \<longrightarrow> inflight (h @ [e]) = [b])"
  unfolding one_at_a_time_def prefix_snoc by auto

lemma one_at_a_time_append:
  "one_at_a_time (h @ es) \<longleftrightarrow> one_at_a_time h \<and> ok_from (inflight h) es"
proof (induction es arbitrary: h)
  case Nil
  show ?case by simp
next
  case (Cons e es)
  have "one_at_a_time (h @ e # es) = one_at_a_time ((h @ [e]) @ es)"
    by simp
  also have "\<dots> = (one_at_a_time (h @ [e]) \<and> ok_from (inflight (h @ [e])) es)"
    by (rule Cons.IH)
  also have "\<dots> = (one_at_a_time h \<and> ok_from (inflight h) (e # es))"
    by (cases e) (auto simp: one_at_a_time_snoc inflight_snoc)
  finally show ?case .
qed

lemmas one_simps = one_at_a_time_append inflight_append

lemma disablePersistence_one:
  assumes "one_at_a_time (trace w)" "inflight (trace w) = []"
    "disablePersistence E a w = (r, w')"
  shows "one_at_a_time (trace w') \<and> inflight (trace w') = []"
proof -
  obtain rd w1 where dial: "DialTimeout E a (5 * Second) w = (rd, w1)"
    by (cases "DialTimeout E a (5 * Second) w")
  note t1 = trace_DialTimeout [OF dial, THEN conjunct1]
  show ?thesis
  proof (cases rd)
    case (Some err)
    with dial assms t1 show ?thesis
      by (auto simp: disablePersistence_def one_simps)
  next
    case None
    obtain rc w2 where cmd: "Cmd_Err E a CONFIG_SET_SAVE_EMPTY w1 = (rc, w2)"
      by (cases "Cmd_Err E a CONFIG_SET_SAVE_EMPTY w1")
    note t2 = trace_Cmd_Err [OF cmd, THEN conjunct1]
    from dial None cmd assms(3) have "w' = Close a w2"
      by (auto simp: disablePersistence_def)
    with assms(1,2) t1 t2 None show ?thesis
      by (simp add: one_simps trace_Close)
  qed
qed

lemma do_disable_one:
  "one_at_a_time (trace w) \<Longrightarrow> inflight (trace w) = [] \<Longrightarrow>
   one_at_a_time (trace (do_disable E addrs w)) \<and> inflight (trace (do_disable E addrs w)) = []"
proof (induction addrs arbitrary: w)
  case Nil
  then show ?case by simp
next
  case (Cons a addrs)
  obtain r w1 where dp: "disablePersistence E a w = (r, w1)"
    by (cases "disablePersistence E a w")
  note d = disablePersistence_one [OF Cons.prems dp]
  show ?case
  proof (cases r)
    case None
    with dp d Cons.IH [of w1] show ?thesis by simp
  next
    case (Some err)
    have "one_at_a_time (trace (Printf (LogErr a err) w1))
        \<and> inflight (trace (Printf (LogErr a err) w1)) = []"
      using d by (simp add: trace_Printf one_simps)
    with dp Some Cons.IH [of "Printf (LogErr a err) w1"] show ?thesis by simp
  qed
qed

lemma loop_one:
  "saveBlocking_loop n E c addr prev t w = (r, w') \<Longrightarrow>
   one_at_a_time (trace w) \<Longrightarrow> inflight (trace w) = [addr] \<Longrightarrow>
   one_at_a_time (trace w') \<and> inflight (trace w') = [addr]"
proof (induction n arbitrary: t w)
  case 0
  then show ?case by simp
next
  case (Suc n)
  from Suc.prems(1) show ?case
  proof (cases rule: saveBlocking_loop_Suc_cases)
    case (cancelled w1)
    with trace_select_wait [OF cancelled(1)] Suc.prems(2,3) show ?thesis
      by (simp add: one_simps)
  next
    case (read_failed w1 err w2)
    with trace_select_wait [OF read_failed(1)] trace_Cmd_Int64 [OF read_failed(2)] Suc.prems(2,3)
    show ?thesis by (simp add: one_simps)
  next
    case (changed w1 cur w2)
    with trace_select_wait [OF changed(1)] trace_Cmd_Int64 [OF changed(2)] Suc.prems(2,3)
    show ?thesis by (simp add: one_simps)
  next
    case (again w1 w2)
    have "one_at_a_time (trace w2) \<and> inflight (trace w2) = [addr]"
      using trace_select_wait [OF again(1)] trace_Cmd_Int64 [OF again(2)] Suc.prems(2,3)
      by (simp add: one_simps)
    with Suc.IH [OF again(3)] show ?thesis by simp
  qed
qed

lemma saveBlocking_one:
  assumes "saveBlocking n E c addr w = (r, w')"
    and "one_at_a_time (trace w)" "inflight (trace w) = []"
  shows "one_at_a_time (trace w') \<and> (r \<noteq> Pending \<longrightarrow> inflight (trace w') = [])"
  using assms(1)
proof (cases rule: saveBlocking_cases)
  case (dial_failed err)
  with trace_DialTimeout [OF dial_failed(1)] assms(2,3) show ?thesis
    by (simp add: one_simps)
next
  case (read_failed w1 err w2)
  with trace_DialTimeout [OF read_failed(1)] trace_Cmd_Int64 [OF read_failed(2)] assms(2,3)
  show ?thesis by (simp add: one_simps trace_Close)
next
  case (trigger_failed w1 prev w2 err w3)
  with trace_DialTimeout [OF trigger_failed(1)] trace_Cmd_Int64 [OF trigger_failed(2)]
    trace_Cmd_Err [OF trigger_failed(3)] assms(2,3)
  show ?thesis by (simp add: one_simps trace_Close)
next
  case (polling w1 prev w2 w3)
  have "one_at_a_time (trace w3) \<and> inflight (trace w3) = [addr]"
    using trace_DialTimeout [OF polling(1)] trace_Cmd_Int64 [OF polling(2)]
      trace_Cmd_Err [OF polling(3)] assms(2,3)
    by (simp add: one_simps)
  with loop_one [OF polling(4)] polling(5) show ?thesis by simp
next
  case (polled w1 prev w2 w3 x w4)
  have "one_at_a_time (trace w3) \<and> inflight (trace w3) = [addr]"
    using trace_DialTimeout [OF polled(1)] trace_Cmd_Int64 [OF polled(2)]
      trace_Cmd_Err [OF polled(3)] assms(2,3)
    by (simp add: one_simps)
  with loop_one [OF polled(4)] polled(5,6) show ?thesis
    by (simp add: one_simps trace_Close)
qed

lemma attempt_logged_one:
  "one_at_a_time (trace w) \<Longrightarrow> inflight (trace w) = [] \<Longrightarrow>
   one_at_a_time (trace (attempt_logged a b x w)) \<and> inflight (trace (attempt_logged a b x w)) = []"
  using trace_attempt_logged [of a b x w]
  by (auto simp: one_simps)

lemma do_pass_one:
  "do_pass n E c addrs w = (r, w') \<Longrightarrow>
   one_at_a_time (trace w) \<Longrightarrow> inflight (trace w) = [] \<Longrightarrow>
   one_at_a_time (trace w') \<and> (r \<noteq> Pending \<longrightarrow> inflight (trace w') = [])"
proof (induction addrs arbitrary: w)
  case Nil
  then show ?case by auto
next
  case (Cons a addrs)
  from Cons.prems(1) show ?case
  proof (cases rule: do_pass_Cons_cases)
    case pending
    with saveBlocking_one [OF pending(1) Cons.prems(2,3)] show ?thesis by simp
  next
    case (abort x w1)
    with saveBlocking_one [OF abort(1) Cons.prems(2,3)] attempt_logged_one [of w1 a "now w" x]
    show ?thesis by simp
  next
    case (continue x w1)
    with saveBlocking_one [OF continue(1) Cons.prems(2,3)] attempt_logged_one [of w1 a "now w" x]
      Cons.IH [OF continue(3)]
    show ?thesis by simp
  qed
qed

lemma do_loop_one:
  "do_loop n E c addrs w = (r, w') \<Longrightarrow>
   one_at_a_time (trace w) \<Longrightarrow> inflight (trace w) = [] \<Longrightarrow>
   one_at_a_time (trace w')"
proof (induction n arbitrary: w)
  case 0
  then show ?case by simp
next
  case (Suc n)
  from Suc.prems(1) show ?case
  proof (cases rule: do_loop_Suc_cases)
    case pending
    with do_pass_one [OF pending(1) Suc.prems(2,3)] show ?thesis by simp
  next
    case (returned x)
    with do_pass_one [OF returned(1) Suc.prems(2,3)] show ?thesis by simp
  next
    case (cancelled w1)
    with do_pass_one [OF cancelled(1) Suc.prems(2,3)] trace_select_wait [OF cancelled(2)]
    show ?thesis by (simp add: one_simps)
  next
    case (again w1 w2)
    have "one_at_a_time (trace w2) \<and> inflight (trace w2) = []"
      using do_pass_one [OF again(1) Suc.prems(2,3)] trace_select_wait [OF again(2)]
      by (simp add: one_simps)
    with Suc.IH [OF again(3)] show ?thesis by simp
  qed
qed

lemma do_one:
  "one_at_a_time (trace (snd (do n E c addrs (start t0))))"
proof (cases "addrs = []")
  case True
  then show ?thesis by (simp add: do_def start_def one_at_a_time_Nil)
next
  case False
  have s: "one_at_a_time (trace (start t0))" "inflight (trace (start t0)) = []"
    by (simp_all add: start_def one_at_a_time_Nil inflight_Nil)
  obtain r w' where dl: "do_loop n E c addrs (do_disable E addrs (start t0)) = (r, w')"
    by (cases "do_loop n E c addrs (do_disable E addrs (start t0))")
  from do_disable_one [OF s, of E addrs] do_loop_one [OF dl] have "one_at_a_time (trace w')"
    by simp
  with False dl show ?thesis by (simp add: do_def)
qed

text \<open>Two endpoints for a minute: each is saved once, then the second pass is cut off.\<close>

lemma run_two:
  "do 7 env_saves \<lparr>deadline = 60000000000\<rparr> [''10.0.0.1:6379'', ''10.0.0.2:6379''] (start 0) =
   (Ret (Some DeadlineExceeded),
    \<lparr>now = 60000000000,
     trace =
       [(1000000, EvDial ''10.0.0.1:6379'' 5000000000 None),
        (2000000, EvErr ''10.0.0.1:6379'' CONFIG_SET_SAVE_EMPTY None),
        (2000000, EvClose ''10.0.0.1:6379''),
        (3000000, EvDial ''10.0.0.2:6379'' 5000000000 None),
        (4000000, EvErr ''10.0.0.2:6379'' CONFIG_SET_SAVE_EMPTY None),
        (4000000, EvClose ''10.0.0.2:6379''),
        (5000000, EvDial ''10.0.0.1:6379'' 15000000000 None),
        (6000000, EvInt ''10.0.0.1:6379'' LASTSAVE (Inr 100)),
        (7000000, EvErr ''10.0.0.1:6379'' BGSAVE None),
        (10007000000, EvWake WakeChan),
        (10008000000, EvInt ''10.0.0.1:6379'' LASTSAVE (Inr 100)),
        (20007000000, EvWake WakeChan),
        (20008000000, EvInt ''10.0.0.1:6379'' LASTSAVE (Inr 101)),
        (20008000000, EvClose ''10.0.0.1:6379''),
        (20008000000, EvLog (LogSaved ''10.0.0.1:6379'' 20004000000)),
        (20009000000, EvDial ''10.0.0.2:6379'' 15000000000 None),
        (20010000000, EvInt ''10.0.0.2:6379'' LASTSAVE (Inr 101)),
        (20011000000, EvErr ''10.0.0.2:6379'' BGSAVE None),
        (30011000000, EvWake WakeChan),
        (30012000000, EvInt ''10.0.0.2:6379'' LASTSAVE (Inr 101)),
        (40011000000, EvWake WakeChan),
        (40012000000, EvInt ''10.0.0.2:6379'' LASTSAVE (Inr 102)),
        (40012000000, EvClose ''10.0.0.2:6379''),
        (40012000000, EvLog (LogSaved ''10.0.0.2:6379'' 20004000000)),
        (50012000000, EvWake WakeChan),
        (50013000000, EvDial ''10.0.0.1:6379'' 15000000000 None),
        (50014000000, EvInt ''10.0.0.1:6379'' LASTSAVE (Inr 102)),
        (50015000000, EvErr ''10.0.0.1:6379'' BGSAVE None),
        (60000000000, EvWake WakeDone),
        (60000000000, EvClose ''10.0.0.1:6379''),
        (60000000000, EvLog (LogErr ''10.0.0.1:6379'' DeadlineExceeded))]\<rparr>)"
  by (simp add: run_defs env_saves_def)

text \<open>
  Claim C2. In every run of \<^verbatim>\<open>do\<close>, over any list of endpoints, with any environment and
  for any amount of fuel (so also in a run that has not returned), at every moment of the
  trace at most one connection is open, and at the moment a save trigger is sent to an
  endpoint the only open connection is the one to that endpoint: the save attempt on the
  endpoint before it has returned and closed its connection.
\<close>

theorem do_one_attempt_in_flight:
  "one_at_a_time (trace (snd (do n E c addrs (start t0))))"
  by (rule do_one)

theorem do_one_attempt_in_flight_witness:
  "inflight (take 18 (trace (snd
      (do 7 env_saves \<lparr>deadline = 60000000000\<rparr> [''10.0.0.1:6379'', ''10.0.0.2:6379''] (start 0)))))
     = [''10.0.0.2:6379'']
   \<and> last (take 18 (trace (snd
      (do 7 env_saves \<lparr>deadline = 60000000000\<rparr> [''10.0.0.1:6379'', ''10.0.0.2:6379''] (start 0)))))
     = (20011000000, EvErr ''10.0.0.2:6379'' BGSAVE None)
   \<and> length (inflight (take 12 (trace (snd
      (do 7 env_saves \<lparr>deadline = 60000000000\<rparr> [''10.0.0.1:6379'', ''10.0.0.2:6379''] (start 0))))))
     \<le> 1"
proof -
  let ?h = "trace (snd
      (do 7 env_saves \<lparr>deadline = 60000000000\<rparr> [''10.0.0.1:6379'', ''10.0.0.2:6379''] (start 0)))"
  have all: "\<And>p. prefix p ?h \<Longrightarrow> length (inflight p) \<le> 1
      \<and> (\<forall>t b r. p \<noteq> [] \<and> last p = (t, EvErr b BGSAVE r) \<longrightarrow> inflight p = [b])"
    using do_one_attempt_in_flight
      [of 7 env_saves "\<lparr>deadline = 60000000000\<rparr>" "[''10.0.0.1:6379'', ''10.0.0.2:6379'']" 0]
    unfolding one_at_a_time_def by blast
  have l: "take 18 ?h \<noteq> [] \<and> last (take 18 ?h) = (20011000000, EvErr ''10.0.0.2:6379'' BGSAVE None)"
    unfolding run_two by simp
  from all [of "take 18 ?h"] l have "inflight (take 18 ?h) = [''10.0.0.2:6379'']"
    using take_is_prefix by blast
  moreover from all [of "take 12 ?h"] have "length (inflight (take 12 ?h)) \<le> 1"
    using take_is_prefix by blast
  ultimately show ?thesis using l by blast
qed

section \<open>How do returns\<close>


lemma do_pass_continue:
  "saveBlocking n E c a w = (Ret x, w1) \<Longrightarrow> \<not> ctx_Done c w1 \<Longrightarrow>
   do_pass n E c (a # rest) w = do_pass n E c rest (attempt_logged a (now w) x w1)"
  by (cases x) (simp_all add: Let_def ctx_Done_def attempt_logged_def now_Printf)





lemma do_pass_returns_done:
  "do_pass n E c addrs w = (Ret (Return x), w') \<Longrightarrow> x = Some DeadlineExceeded \<and> ctx_Done c w'"
proof (induction addrs arbitrary: w)
  case Nil
  then show ?case by simp
next
  case (Cons a addrs)
  from Cons.prems show ?case
  proof (cases rule: do_pass_Cons_cases)
    case pending
    then show ?thesis by simp
  next
    case (abort x' w1)
    then show ?thesis by (simp add: ctx_Done_attempt_logged)
  next
    case (continue x' w1)
    with Cons.IH show ?thesis by simp
  qed
qed

lemma do_loop_returns_done:
  "do_loop n E c addrs w = (Ret r, w') \<Longrightarrow> r = Some DeadlineExceeded \<and> ctx_Done c w'"
proof (induction n arbitrary: w)
  case 0
  then show ?case by simp
next
  case (Suc n)
  from Suc.prems show ?case
  proof (cases rule: do_loop_Suc_cases)
    case pending
    then show ?thesis by simp
  next
    case (returned x)
    with do_pass_returns_done [OF returned(1)] show ?thesis by simp
  next
    case (cancelled w1)
    with select_wait_Done [OF cancelled(2)] show ?thesis by simp
  next
    case (again w1 w2)
    with Suc.IH show ?thesis by simp
  qed
qed

lemma do_returns_done:
  assumes "do n E c addrs w = (Ret r, w')" and "addrs \<noteq> []"
  shows "r = Some DeadlineExceeded \<and> deadline c \<le> now w'"
  using assms do_loop_returns_done [of n E c addrs "do_disable E addrs w" r w']
  by (simp add: do_def ctx_Done_def)

lemma do_returns:
  assumes "fst (do n E c addrs w) = Ret r"
  shows "r = Some DeadlineExceeded \<or> (addrs = [] \<and> r = Some (ErrorsNew ''empty addresses''))"
proof (cases "addrs = []")
  case True
  with assms show ?thesis by (simp add: do_def)
next
  case False
  obtain s w' where d: "do n E c addrs w = (s, w')"
    by (cases "do n E c addrs w")
  with assms have "s = Ret r" by simp
  with d do_returns_done [of n E c addrs w r w'] False show ?thesis by simp
qed

subsection \<open>The trace only grows\<close>

lemma saveBlocking_loop_grows:
  "saveBlocking_loop n E c addr prev t w = (r, w') \<Longrightarrow> prefix (trace w) (trace w')"
  using loop_reads [of n E c addr prev t w r w'] by (auto simp: prefix_def)

lemma prefix_snoc_grows: "prefix h (trace w) \<Longrightarrow> trace w' = trace w @ es \<Longrightarrow> prefix h (trace w')"
  by (auto simp: prefix_def)

lemma saveBlocking_grows:
  assumes "saveBlocking n E c addr w = (r, w')"
  shows "prefix (trace w) (trace w')"
  using assms
proof (cases rule: saveBlocking_cases)
  case (dial_failed err)
  with trace_DialTimeout [OF dial_failed(1)] show ?thesis by (simp add: prefix_def)
next
  case (read_failed w1 err w2)
  with trace_DialTimeout [OF read_failed(1)] trace_Cmd_Int64 [OF read_failed(2)] show ?thesis
    by (simp add: prefix_def trace_Close)
next
  case (trigger_failed w1 prev w2 err w3)
  with trace_DialTimeout [OF trigger_failed(1)] trace_Cmd_Int64 [OF trigger_failed(2)]
    trace_Cmd_Err [OF trigger_failed(3)] show ?thesis
    by (simp add: prefix_def trace_Close)
next
  case (polling w1 prev w2 w3)
  have "prefix (trace w) (trace w3)"
    using trace_DialTimeout [OF polling(1)] trace_Cmd_Int64 [OF polling(2)]
      trace_Cmd_Err [OF polling(3)] by (simp add: prefix_def)
  with saveBlocking_loop_grows [OF polling(4)] show ?thesis by (blast intro: prefix_order.trans)
next
  case (polled w1 prev w2 w3 x w4)
  have "prefix (trace w) (trace w3)"
    using trace_DialTimeout [OF polled(1)] trace_Cmd_Int64 [OF polled(2)]
      trace_Cmd_Err [OF polled(3)] by (simp add: prefix_def)
  with saveBlocking_loop_grows [OF polled(4)] have "prefix (trace w) (trace w4)"
    by (blast intro: prefix_order.trans)
  with polled(6) show ?thesis by (simp add: trace_Close)
qed

lemma saveBlocking_keeps_trigger:
  assumes run: "saveBlocking n E c a w0 = (s, ws)"
    and dial: "DialTimeout E a (15 * Second) w0 = (None, w1)"
    and rd: "Cmd_Int64 E a LASTSAVE w1 = (Inr prev, w2)"
    and bg: "Cmd_Err E a BGSAVE w2 = (rb, w3)"
  shows "prefix (trace w3) (trace ws)"
  using run
proof (cases rule: saveBlocking_cases)
  case (dial_failed err)
  with dial show ?thesis by simp
next
  case (read_failed w1' err w2')
  with dial rd show ?thesis by simp
next
  case (trigger_failed w1' prev' w2' err w3')
  with dial rd bg show ?thesis by (simp add: trace_Close)
next
  case (polling w1' prev' w2' w3')
  with dial rd bg saveBlocking_loop_grows [OF polling(4)] show ?thesis by simp
next
  case (polled w1' prev' w2' w3' x w4)
  with dial rd bg saveBlocking_loop_grows [OF polled(4)] show ?thesis
    by (simp add: trace_Close)
qed

lemma attempt_logged_grows: "prefix (trace w) (trace (attempt_logged a b x w))"
  using trace_attempt_logged [of a b x w] by (auto simp: prefix_def)

lemma do_pass_grows:
  "do_pass n E c addrs w = (r, w') \<Longrightarrow> prefix (trace w) (trace w')"
proof (induction addrs arbitrary: w)
  case Nil
  then show ?case by simp
next
  case (Cons a addrs)
  from Cons.prems show ?case
  proof (cases rule: do_pass_Cons_cases)
    case pending
    with saveBlocking_grows [OF pending(1)] show ?thesis by simp
  next
    case (abort x w1)
    with saveBlocking_grows [OF abort(1)] attempt_logged_grows [of w1 a "now w" x]
    show ?thesis by (auto intro: prefix_order.trans)
  next
    case (continue x w1)
    from saveBlocking_grows [OF continue(1)] attempt_logged_grows [of w1 a "now w" x]
    have "prefix (trace w) (trace (attempt_logged a (now w) x w1))"
      by (blast intro: prefix_order.trans)
    with Cons.IH [OF continue(3)] show ?thesis by (blast intro: prefix_order.trans)
  qed
qed

lemma select_wait_grows: "select_wait E c f w = (k, w1) \<Longrightarrow> prefix (trace w) (trace w1)"
  using trace_select_wait [of E c f w k w1] by (simp add: prefix_def)

lemma do_loop_grows:
  "do_loop n E c addrs w = (r, w') \<Longrightarrow> prefix (trace w) (trace w')"
proof (induction n arbitrary: w)
  case 0
  then show ?case by simp
next
  case (Suc n)
  from Suc.prems show ?case
  proof (cases rule: do_loop_Suc_cases)
    case pending
    with do_pass_grows [OF pending(1)] show ?thesis by simp
  next
    case (returned x)
    with do_pass_grows [OF returned(1)] show ?thesis by simp
  next
    case (cancelled w1)
    from do_pass_grows [OF cancelled(1)] select_wait_grows [OF cancelled(2)]
    show ?thesis by (blast intro: prefix_order.trans)
  next
    case (again w1 w2)
    from do_pass_grows [OF again(1)] select_wait_grows [OF again(2)]
    have "prefix (trace w) (trace w2)" by (blast intro: prefix_order.trans)
    with Suc.IH [OF again(3)] show ?thesis by (blast intro: prefix_order.trans)
  qed
qed

lemma do_pass_keeps_attempt:
  assumes "do_pass n E c (a # rest) w = (r, w')" and "saveBlocking n E c a w = (s, ws)"
  shows "prefix (trace ws) (trace w')"
  using assms(1)
proof (cases rule: do_pass_Cons_cases)
  case pending
  with assms(2) show ?thesis by simp
next
  case (abort x w1)
  with assms(2) attempt_logged_grows [of w1 a "now w" x] show ?thesis by simp
next
  case (continue x w1)
  with assms(2) attempt_logged_grows [of w1 a "now w" x] do_pass_grows [OF continue(3)]
  show ?thesis by (auto intro: prefix_order.trans)
qed

lemma do_loop_keeps_pass:
  assumes "do_loop (Suc m) E c addrs w = (r, w')" and "do_pass (Suc m) E c addrs w = (s, wp)"
  shows "prefix (trace wp) (trace w')"
  using assms(1)
proof (cases rule: do_loop_Suc_cases)
  case pending
  with assms(2) show ?thesis by simp
next
  case (returned x)
  with assms(2) show ?thesis by simp
next
  case (cancelled w1)
  with assms(2) select_wait_grows [OF cancelled(2)] show ?thesis by simp
next
  case (again w1 w2)
  with assms(2) select_wait_grows [OF again(2)] do_loop_grows [OF again(3)]
  show ?thesis by (auto intro: prefix_order.trans)
qed

lemma do_reaches_trigger:
  assumes n: "0 < n"
    and reach: "do_pass n E c pre (do_disable E (pre @ a # rest) w) = (Ret Continue, w0)"
    and dial: "DialTimeout E a (15 * Second) w0 = (None, w1)"
    and rd: "Cmd_Int64 E a LASTSAVE w1 = (Inr prev, w2)"
    and bg: "Cmd_Err E a BGSAVE w2 = (rb, w3)"
  shows "(now w3, EvErr a BGSAVE rb) \<in> set (trace (snd (do n E c (pre @ a # rest) w)))"
proof -
  from n obtain m where m: "n = Suc m" by (cases n) simp_all
  let ?wd = "do_disable E (pre @ a # rest) w"
  obtain s ws where sb: "saveBlocking n E c a w0 = (s, ws)"
    by (cases "saveBlocking n E c a w0")
  obtain p wp where dp: "do_pass n E c (a # rest) w0 = (p, wp)"
    by (cases "do_pass n E c (a # rest) w0")
  obtain r w' where dl: "do_loop n E c (pre @ a # rest) ?wd = (r, w')"
    by (cases "do_loop n E c (pre @ a # rest) ?wd")
  have whole: "do_pass n E c (pre @ a # rest) ?wd = (p, wp)"
    using reach dp by (simp add: do_pass_append)
  have "prefix (trace w3) (trace ws)"
    using sb dial rd bg by (rule saveBlocking_keeps_trigger)
  also have "prefix (trace ws) (trace wp)"
    using dp sb by (rule do_pass_keeps_attempt)
  also have "prefix (trace wp) (trace w')"
    using dl whole unfolding m by (rule do_loop_keeps_pass)
  finally have "set (trace w3) \<subseteq> set (trace w')"
    by (rule set_mono_prefix)
  moreover have "(now w3, EvErr a BGSAVE rb) \<in> set (trace w3)"
    using trace_Cmd_Err [OF bg] by simp
  moreover have "do n E c (pre @ a # rest) w = (r, w')"
    using dl by (simp add: do_def)
  ultimately show ?thesis by auto
qed

section \<open>The signal is checked after every endpoint\<close>






section \<open>Errors of one endpoint do not end the run\<close>

lemma toggled_append: "toggled (xs @ ys) = toggled xs @ toggled ys"
  by (induction xs rule: toggled.induct) simp_all

lemma disablePersistence_toggled:
  assumes "disablePersistence E a w = (r, w')"
  shows "\<exists>es. trace w' = trace w @ es \<and> toggled (map snd es) = [a]"
proof -
  obtain rd w1 where dial: "DialTimeout E a (5 * Second) w = (rd, w1)"
    by (cases "DialTimeout E a (5 * Second) w")
  note t1 = trace_DialTimeout [OF dial, THEN conjunct1]
  show ?thesis
  proof (cases rd)
    case (Some err)
    with dial assms have "w' = w1" by (simp add: disablePersistence_def)
    with t1 show ?thesis by simp
  next
    case None
    obtain rc w2 where cmd: "Cmd_Err E a CONFIG_SET_SAVE_EMPTY w1 = (rc, w2)"
      by (cases "Cmd_Err E a CONFIG_SET_SAVE_EMPTY w1")
    note t2 = trace_Cmd_Err [OF cmd, THEN conjunct1]
    from dial None cmd assms have "w' = Close a w2"
      by (simp add: disablePersistence_def)
    with t1 t2 show ?thesis by (simp add: trace_Close)
  qed
qed

lemma do_disable_toggled:
  "\<exists>es. trace (do_disable E addrs w) = trace w @ es \<and> toggled (map snd es) = addrs"
proof (induction addrs arbitrary: w)
  case Nil
  show ?case by simp
next
  case (Cons a addrs)
  obtain r w1 where dp: "disablePersistence E a w = (r, w1)"
    by (cases "disablePersistence E a w")
  from disablePersistence_toggled [OF dp] obtain es1 where
    es1: "trace w1 = trace w @ es1" "toggled (map snd es1) = [a]"
    by blast
  show ?case
  proof (cases r)
    case None
    from Cons.IH [of w1] obtain es2 where
      es2: "trace (do_disable E addrs w1) = trace w1 @ es2" "toggled (map snd es2) = addrs"
      by blast
    have "trace (do_disable E (a # addrs) w) = trace w @ (es1 @ es2)"
      using dp None es1(1) es2(1) by simp
    moreover have "toggled (map snd (es1 @ es2)) = a # addrs"
      using es1(2) es2(2) by (simp add: toggled_append)
    ultimately show ?thesis by blast
  next
    case (Some err)
    let ?w2 = "Printf (LogErr a err) w1"
    from Cons.IH [of ?w2] obtain es2 where
      es2: "trace (do_disable E addrs ?w2) = trace ?w2 @ es2" "toggled (map snd es2) = addrs"
      by blast
    have "trace (do_disable E (a # addrs) w) =
        trace w @ (es1 @ (now w1, EvLog (LogErr a err)) # es2)"
      using dp Some es1(1) es2(1) by (simp add: trace_Printf)
    moreover have "toggled (map snd (es1 @ (now w1, EvLog (LogErr a err)) # es2)) = a # addrs"
      using es1(2) es2(2) by (simp add: toggled_append)
    ultimately show ?thesis by blast
  qed
qed

lemma do_disable_toggles_all: "toggled (new_events w (do_disable E addrs w)) = addrs"
  using do_disable_toggled [of E addrs w] by (auto simp: new_events_def)

text \<open>A server that rejects \<^verbatim>\<open>CONFIG SET\<close> is still asked to save.\<close>

lemma run_rejected_toggle:
  "disablePersistence env_config_rejected ''10.0.0.1:6379'' (start 0) =
   (Some (ExtError ''ERR''),
    \<lparr>now = 2000000,
     trace =
       [(1000000, EvDial ''10.0.0.1:6379'' 5000000000 None),
        (2000000, EvErr ''10.0.0.1:6379'' CONFIG_SET_SAVE_EMPTY (Some ''ERR'')),
        (2000000, EvClose ''10.0.0.1:6379'')]\<rparr>)"
  by (simp add: run_defs env_config_rejected_def)

lemma run_rejected_disable:
  "do_disable env_config_rejected [''10.0.0.1:6379''] (start 0) =
   \<lparr>now = 2000000,
    trace =
      [(1000000, EvDial ''10.0.0.1:6379'' 5000000000 None),
       (2000000, EvErr ''10.0.0.1:6379'' CONFIG_SET_SAVE_EMPTY (Some ''ERR'')),
       (2000000, EvClose ''10.0.0.1:6379''),
       (2000000, EvLog (LogErr ''10.0.0.1:6379'' (ExtError ''ERR'')))]\<rparr>"
  by (simp add: run_defs env_config_rejected_def)

lemma run_rejected:
  "do 1 env_config_rejected \<lparr>deadline = 60000000000\<rparr> [''10.0.0.1:6379''] (start 0) =
   (Pending,
    \<lparr>now = 20006000000,
     trace =
       [(1000000, EvDial ''10.0.0.1:6379'' 5000000000 None),
        (2000000, EvErr ''10.0.0.1:6379'' CONFIG_SET_SAVE_EMPTY (Some ''ERR'')),
        (2000000, EvClose ''10.0.0.1:6379''),
        (2000000, EvLog (LogErr ''10.0.0.1:6379'' (ExtError ''ERR''))),
        (3000000, EvDial ''10.0.0.1:6379'' 15000000000 None),
        (4000000, EvInt ''10.0.0.1:6379'' LASTSAVE (Inr 100)),
        (5000000, EvErr ''10.0.0.1:6379'' BGSAVE None),
        (10005000000, EvWake WakeChan),
        (10006000000, EvInt ''10.0.0.1:6379'' LASTSAVE (Inr 101)),
        (10006000000, EvClose ''10.0.0.1:6379''),
        (10006000000, EvLog (LogSaved ''10.0.0.1:6379'' 10004000000)),
        (20006000000, EvWake WakeChan)]\<rparr>)"
  by (simp add: run_defs env_config_rejected_def)

text \<open>An attempt that fails on a slow server, long before the deadline.\<close>

lemma run_slow_attempt:
  "saveBlocking 1 env_slow \<lparr>deadline = 60000000000\<rparr> ''h1'' (start 0) =
   (Ret (Some (ExtError ''connection reset by peer'')),
    \<lparr>now = 7000000000,
     trace =
       [(3000000000, EvDial ''h1'' 15000000000 None),
        (7000000000, EvInt ''h1'' LASTSAVE (Inl ''connection reset by peer'')),
        (7000000000, EvClose ''h1'')]\<rparr>)"
  by (simp add: run_defs env_slow_def)

text \<open>
  Claim C6. Errors of connecting to an endpoint and of its commands stay with that
  endpoint. (1) \<^verbatim>\<open>do\<close> never returns such an error: once the list of endpoints is not
  empty, all it ever returns is the error of the context. (2) The disabling loop calls
  disablePersistence on every endpoint, once and in order, whatever the calls return; a
  failed call is logged and the loop goes on. (3) A save attempt that fails is logged and,
  the signal not having fired, the pass goes on with the next endpoint. (4) Whatever the
  disabling loop met, when the pass comes to an endpoint and the connection and the first
  read succeed, the save trigger is sent to it.
\<close>

theorem endpoint_errors_are_absorbed:
  "(fst (do n E c addrs w) = Ret r \<longrightarrow>
      r = Some DeadlineExceeded \<or> (addrs = [] \<and> r = Some (ErrorsNew ''empty addresses'')))
   \<and> toggled (new_events w (do_disable E addrs w)) = addrs
   \<and> (disablePersistence E a w = (Some err, w1) \<longrightarrow>
        do_disable E (a # rest) w = do_disable E rest (Printf (LogErr a err) w1))
   \<and> (saveBlocking n E c a w = (Ret (Some (ExtError m)), w1) \<and> \<not> ctx_Done c w1 \<longrightarrow>
        do_pass n E c (a # rest) w = do_pass n E c rest (Printf (LogErr a (ExtError m)) w1))
   \<and> (0 < n \<and> do_pass n E c pre (do_disable E (pre @ a # rest) w) = (Ret Continue, w0)
        \<and> DialTimeout E a (15 * Second) w0 = (None, w2)
        \<and> Cmd_Int64 E a LASTSAVE w2 = (Inr prev, w3)
        \<and> Cmd_Err E a BGSAVE w3 = (rb, w4) \<longrightarrow>
        (now w4, EvErr a BGSAVE rb) \<in> set (trace (snd (do n E c (pre @ a # rest) w))))"
proof (intro conjI impI)
  assume "fst (do n E c addrs w) = Ret r"
  then show "r = Some DeadlineExceeded \<or> (addrs = [] \<and> r = Some (ErrorsNew ''empty addresses''))"
    by (rule do_returns)
next
  show "toggled (new_events w (do_disable E addrs w)) = addrs"
    by (rule do_disable_toggles_all)
next
  assume "disablePersistence E a w = (Some err, w1)"
  then show "do_disable E (a # rest) w = do_disable E rest (Printf (LogErr a err) w1)"
    by simp
next
  assume "saveBlocking n E c a w = (Ret (Some (ExtError m)), w1) \<and> \<not> ctx_Done c w1"
  then show "do_pass n E c (a # rest) w = do_pass n E c rest (Printf (LogErr a (ExtError m)) w1)"
    using do_pass_continue [of n E c a w "Some (ExtError m)" w1 rest]
    by (simp add: attempt_logged_def)
next
  assume "0 < n \<and> do_pass n E c pre (do_disable E (pre @ a # rest) w) = (Ret Continue, w0)
        \<and> DialTimeout E a (15 * Second) w0 = (None, w2)
        \<and> Cmd_Int64 E a LASTSAVE w2 = (Inr prev, w3)
        \<and> Cmd_Err E a BGSAVE w3 = (rb, w4)"
  then show "(now w4, EvErr a BGSAVE rb) \<in> set (trace (snd (do n E c (pre @ a # rest) w)))"
    using do_reaches_trigger [of n E c pre a rest w w0 w2 prev w3 rb w4] by blast
qed

theorem endpoint_errors_are_absorbed_witness:
  "toggled (new_events (start 0) (do_disable env_config_rejected [''10.0.0.1:6379''] (start 0)))
     = [''10.0.0.1:6379'']
   \<and> do_disable env_config_rejected [''10.0.0.1:6379''] (start 0) =
       Printf (LogErr ''10.0.0.1:6379'' (ExtError ''ERR''))
         (snd (disablePersistence env_config_rejected ''10.0.0.1:6379'' (start 0)))
   \<and> do_pass 1 env_slow \<lparr>deadline = 60000000000\<rparr> [''h1'', ''h2''] (start 0) =
       do_pass 1 env_slow \<lparr>deadline = 60000000000\<rparr> [''h2'']
         (Printf (LogErr ''h1'' (ExtError ''connection reset by peer''))
            (snd (saveBlocking 1 env_slow \<lparr>deadline = 60000000000\<rparr> ''h1'' (start 0))))
   \<and> (5000000, EvErr ''10.0.0.1:6379'' BGSAVE None)
       \<in> set (trace (snd (do 1 env_config_rejected \<lparr>deadline = 60000000000\<rparr>
            [''10.0.0.1:6379''] (start 0))))"
proof -
  let ?E = env_config_rejected and ?c = "\<lparr>deadline = 60000000000\<rparr>"
  let ?w0 = "do_disable ?E [''10.0.0.1:6379''] (start 0)"
  let ?w2 = "\<lparr>now = 3000000, trace = trace ?w0 @ [(3000000, EvDial ''10.0.0.1:6379'' (15 * Second) None)]\<rparr>"
  let ?w3 = "\<lparr>now = 4000000, trace = trace ?w2 @ [(4000000, EvInt ''10.0.0.1:6379'' LASTSAVE (Inr 100))]\<rparr>"
  let ?w4 = "\<lparr>now = 5000000, trace = trace ?w3 @ [(5000000, EvErr ''10.0.0.1:6379'' BGSAVE None)]\<rparr>"
  note main_fact = endpoint_errors_are_absorbed
  have a: "toggled (new_events (start 0) (do_disable ?E [''10.0.0.1:6379''] (start 0)))
      = [''10.0.0.1:6379'']"
    using main_fact [of 1 ?E ?c "[''10.0.0.1:6379'']" "start 0"] by blast
  have tg: "disablePersistence ?E ''10.0.0.1:6379'' (start 0) =
      (Some (ExtError ''ERR''), snd (disablePersistence ?E ''10.0.0.1:6379'' (start 0)))"
    unfolding run_rejected_toggle by simp
  have b: "do_disable ?E [''10.0.0.1:6379''] (start 0) =
      Printf (LogErr ''10.0.0.1:6379'' (ExtError ''ERR''))
        (snd (disablePersistence ?E ''10.0.0.1:6379'' (start 0)))"
    using main_fact [of 1 ?E ?c "[]" "start 0" _ "''10.0.0.1:6379''" "ExtError ''ERR''"
        "snd (disablePersistence ?E ''10.0.0.1:6379'' (start 0))" "[]"] tg
    by simp
  have at: "saveBlocking 1 env_slow ?c ''h1'' (start 0) =
      (Ret (Some (ExtError ''connection reset by peer'')),
       snd (saveBlocking 1 env_slow ?c ''h1'' (start 0)))
      \<and> \<not> ctx_Done ?c (snd (saveBlocking 1 env_slow ?c ''h1'' (start 0)))"
    unfolding run_slow_attempt by (simp add: ctx_Done_def)
  have c: "do_pass 1 env_slow ?c [''h1'', ''h2''] (start 0) =
      do_pass 1 env_slow ?c [''h2'']
        (Printf (LogErr ''h1'' (ExtError ''connection reset by peer''))
           (snd (saveBlocking 1 env_slow ?c ''h1'' (start 0))))"
    using main_fact [of 1 env_slow ?c "[]" "start 0" _ "''h1''" _
        "snd (saveBlocking 1 env_slow ?c ''h1'' (start 0))" "[''h2'']"
        "''connection reset by peer''"] at
    by blast
  have h: "0 < (1::nat)
      \<and> do_pass 1 ?E ?c [] (do_disable ?E ([] @ ''10.0.0.1:6379'' # []) (start 0)) = (Ret Continue, ?w0)
      \<and> DialTimeout ?E ''10.0.0.1:6379'' (15 * Second) ?w0 = (None, ?w2)
      \<and> Cmd_Int64 ?E ''10.0.0.1:6379'' LASTSAVE ?w2 = (Inr 100, ?w3)
      \<and> Cmd_Err ?E ''10.0.0.1:6379'' BGSAVE ?w3 = (None, ?w4)"
    unfolding run_rejected_disable by (simp add: run_defs env_config_rejected_def)
  have d: "(5000000, EvErr ''10.0.0.1:6379'' BGSAVE None)
      \<in> set (trace (snd (do 1 ?E ?c [''10.0.0.1:6379''] (start 0))))"
    using main_fact [of 1 ?E ?c _ "start 0" _ "''10.0.0.1:6379''" _ _ "[]" _ "[]" ?w0 ?w2 100 ?w3 None ?w4] h
    by simp
  from a b c d show ?thesis by blast
qed

section \<open>The shuffle keeps the addresses\<close>

lemma length_shuffle_step: "length (shuffle_step rnd i xs) = length xs"
  by (simp add: shuffle_step_def Let_def)

lemma mset_shuffle_step: "i < length xs \<Longrightarrow> mset (shuffle_step rnd i xs) = mset xs"
proof -
  assume i: "i < length xs"
  have "rnd i mod (i + 1) < i + 1" by simp
  with i have j: "rnd i mod (i + 1) < length xs" by linarith
  show ?thesis
    using mset_swap [OF j i] by (simp add: shuffle_step_def Intn_def Let_def)
qed

lemma mset_fold_shuffle_step:
  "\<forall>i \<in> set is. i < length xs \<Longrightarrow> mset (fold (shuffle_step rnd) is xs) = mset xs"
  by (induction "is" arbitrary: xs) (simp_all add: mset_shuffle_step length_shuffle_step)

text \<open>
  Claim C8. For every list of addresses, of any length, the shuffle returns a permutation
  of it: the multiset of addresses is the same, nothing is lost and nothing is doubled.
  The empty list and a list of one address come back unchanged.
\<close>

theorem shuffle_permutation:
  "mset (shuffle rnd addrs) = mset addrs
   \<and> shuffle rnd [] = []
   \<and> shuffle rnd [a] = [a]"
proof -
  have "mset (shuffle rnd addrs) = mset addrs"
    unfolding shuffle_def by (rule mset_fold_shuffle_step) simp
  moreover have "shuffle rnd [] = []"
    by (simp add: shuffle_def)
  moreover have "shuffle rnd [a] = [a]"
    by (simp add: shuffle_def shuffle_step_def Intn_def)
  ultimately show ?thesis by blast
qed

section \<open>What main runs\<close>

lemma length_shuffle: "length (shuffle rnd xs) = length xs"
proof -
  have "\<And>is ys. length (fold (shuffle_step rnd) is ys) = length (ys :: 'a list)"
  proof -
    fix "is" and ys :: "'a list"
    show "length (fold (shuffle_step rnd) is ys) = length ys"
      by (induction "is" arbitrary: ys) (simp_all add: length_shuffle_step)
  qed
  then show ?thesis by (simp add: shuffle_def)
qed

lemma shuffle_one: "shuffle rnd [a] = [a]"
  by (simp add: shuffle_def shuffle_step_def Intn_def)

lemma shuffle_Nil_iff: "shuffle rnd xs = [] \<longleftrightarrow> xs = []"
  using length_shuffle [of rnd xs] by (metis length_0_conv)

lemma Addresses_main_deadline: "Addresses (main_deadline a) = Addresses a"
  by (simp add: main_deadline_def)

lemma main_runs_do:
  assumes "readLines fs (Addresses a) = (addrs, None)"
  shows "main n fs rnd E a w =
     main_exit (Deadline (main_deadline a))
       (do n E \<lparr>deadline = now w + sint (Deadline (main_deadline a))\<rparr> (shuffle rnd addrs) w)"
  using assms
  by (simp add: main_def main_exit_def Let_def WithTimeout_def Addresses_main_deadline
      split: prod.splits status.splits option.splits)

lemma main_deadline_small:
  "sint (Deadline a) < 60000000000 \<Longrightarrow> main_deadline a = a\<lparr>Deadline := 60000000000\<rparr>"
  by (simp add: main_deadline_def word_sless_alt Minute_def Second_def)

lemma main_deadline_large:
  "60000000000 \<le> sint (Deadline a) \<Longrightarrow> main_deadline a = a"
  by (simp add: main_deadline_def word_sless_alt Minute_def Second_def)

lemma sint_main_deadline:
  "sint (Deadline (main_deadline a)) = max 60000000000 (sint (Deadline a))"
proof (cases "sint (Deadline a) < 60000000000")
  case True
  then show ?thesis by (simp add: main_deadline_small)
next
  case False
  then show ?thesis by (simp add: main_deadline_large)
qed

lemma main_returns_after_deadline:
  assumes rl: "readLines fs (Addresses a) = (addrs, None)" and ne: "addrs \<noteq> []"
    and m: "main n fs rnd E a w = (Ret x, w')"
  shows "x = Exit0 \<and> now w + max 60000000000 (sint (Deadline a)) \<le> now w'"
proof -
  let ?c = "\<lparr>deadline = now w + sint (Deadline (main_deadline a))\<rparr>"
  obtain s w1 where d: "do n E ?c (shuffle rnd addrs) w = (s, w1)"
    by (cases "do n E ?c (shuffle rnd addrs) w")
  from m main_runs_do [OF rl, of n rnd E w] d
  have me: "main_exit (Deadline (main_deadline a)) (s, w1) = (Ret x, w')"
    by simp
  then obtain r where s: "s = Ret r"
    by (cases s) (simp_all add: main_exit_def)
  from do_returns_done [OF d [unfolded s]] ne
  have r: "r = Some DeadlineExceeded" and dl: "deadline ?c \<le> now w1"
    by (simp_all add: shuffle_Nil_iff)
  from me s r have "x = Exit0" and "w' = Printf (LogDeadline (Deadline (main_deadline a))) w1"
    by (simp_all add: main_exit_def)
  with dl show ?thesis
    by (simp add: now_Printf sint_main_deadline)
qed

lemma run_main_zero:
  "main 7 (hosts_file [''10.0.0.1:6379'']) draws_zero env_never_saves
     \<lparr>Deadline = 0, Addresses = ''hosts''\<rparr> (start 0) =
   (Ret Exit0,
    \<lparr>now = 60000000000,
     trace =
       [(1000000, EvDial ''10.0.0.1:6379'' 5000000000 None),
        (2000000, EvErr ''10.0.0.1:6379'' CONFIG_SET_SAVE_EMPTY None),
        (2000000, EvClose ''10.0.0.1:6379''),
        (3000000, EvDial ''10.0.0.1:6379'' 15000000000 None),
        (4000000, EvInt ''10.0.0.1:6379'' LASTSAVE (Inr 100)),
        (5000000, EvErr ''10.0.0.1:6379'' BGSAVE None),
        (10005000000, EvWake WakeChan),
        (10006000000, EvInt ''10.0.0.1:6379'' LASTSAVE (Inr 100)),
        (20005000000, EvWake WakeChan),
        (20006000000, EvInt ''10.0.0.1:6379'' LASTSAVE (Inr 100)),
        (30005000000, EvWake WakeChan),
        (30006000000, EvInt ''10.0.0.1:6379'' LASTSAVE (Inr 100)),
        (40005000000, EvWake WakeChan),
        (40006000000, EvInt ''10.0.0.1:6379'' LASTSAVE (Inr 100)),
        (50005000000, EvWake WakeChan),
        (50006000000, EvInt ''10.0.0.1:6379'' LASTSAVE (Inr 100)),
        (60000000000, EvWake WakeDone),
        (60000000000, EvClose ''10.0.0.1:6379''),
        (60000000000, EvLog (LogErr ''10.0.0.1:6379'' DeadlineExceeded)),
        (60000000000, EvLog (LogDeadline 60000000000))]\<rparr>)"
  by (simp add: main_def main_deadline_def word_sless_alt Minute_def WithTimeout_def
      shuffle_one run_defs env_never_saves_def)

lemma run_main_ninety:
  "fst (main 10 (hosts_file [''10.0.0.1:6379'']) draws_zero env_never_saves
     \<lparr>Deadline = 90000000000, Addresses = ''hosts''\<rparr> (start 0)) = Ret Exit0
   \<and> now (snd (main 10 (hosts_file [''10.0.0.1:6379'']) draws_zero env_never_saves
     \<lparr>Deadline = 90000000000, Addresses = ''hosts''\<rparr> (start 0))) = 90000000000"
  by (simp add: main_def main_deadline_def word_sless_alt Minute_def WithTimeout_def
      shuffle_one run_defs env_never_saves_def)

lemma readLines_hosts_one:
  "readLines (hosts_file [''10.0.0.1:6379'']) ''hosts'' = ([''10.0.0.1:6379''], None)"
  by (simp add: run_defs)

section \<open>The floor of the deadline\<close>

text \<open>
  Claim C9. A requested run duration below one minute (zero and negative durations
  included; the comparison is the signed one of int64) is replaced by exactly one minute:
  the context that \<^verbatim>\<open>main\<close> gives to \<^verbatim>\<open>do\<close> then expires one minute after the start, and
  one minute is the duration that is printed. A requested duration of one minute or more is
  used as it is: the context expires that duration after the start. So no run over a list
  of endpoints that is not empty returns before the larger of one minute and the requested
  duration has passed.
\<close>

theorem deadline_floor:
  "(sint (Deadline a) < 60000000000 \<longrightarrow>
      main_deadline a = a\<lparr>Deadline := 60000000000\<rparr>
      \<and> (readLines fs (Addresses a) = (addrs, None) \<longrightarrow>
           main n fs rnd E a w =
             main_exit 60000000000
               (do n E \<lparr>deadline = now w + 60000000000\<rparr> (shuffle rnd addrs) w)))
   \<and> (60000000000 \<le> sint (Deadline a) \<longrightarrow>
      main_deadline a = a
      \<and> (readLines fs (Addresses a) = (addrs, None) \<longrightarrow>
           main n fs rnd E a w =
             main_exit (Deadline a)
               (do n E \<lparr>deadline = now w + sint (Deadline a)\<rparr> (shuffle rnd addrs) w)))
   \<and> (readLines fs (Addresses a) = (addrs, None) \<and> addrs \<noteq> []
        \<and> main n fs rnd E a w = (Ret x, w') \<longrightarrow>
      x = Exit0 \<and> now w + max 60000000000 (sint (Deadline a)) \<le> now w')"
proof (intro conjI impI)
  assume "sint (Deadline a) < 60000000000"
  then show "main_deadline a = a\<lparr>Deadline := 60000000000\<rparr>"
    by (rule main_deadline_small)
next
  assume s: "sint (Deadline a) < 60000000000"
    and rl: "readLines fs (Addresses a) = (addrs, None)"
  from main_runs_do [OF rl, of n rnd E w] main_deadline_small [OF s]
  show "main n fs rnd E a w =
      main_exit 60000000000 (do n E \<lparr>deadline = now w + 60000000000\<rparr> (shuffle rnd addrs) w)"
    by simp
next
  assume "60000000000 \<le> sint (Deadline a)"
  then show "main_deadline a = a"
    by (rule main_deadline_large)
next
  assume s: "60000000000 \<le> sint (Deadline a)"
    and rl: "readLines fs (Addresses a) = (addrs, None)"
  from main_runs_do [OF rl, of n rnd E w] main_deadline_large [OF s]
  show "main n fs rnd E a w =
      main_exit (Deadline a) (do n E \<lparr>deadline = now w + sint (Deadline a)\<rparr> (shuffle rnd addrs) w)"
    by simp
next
  assume h: "readLines fs (Addresses a) = (addrs, None) \<and> addrs \<noteq> []
      \<and> main n fs rnd E a w = (Ret x, w')"
  then show "x = Exit0"
    using main_returns_after_deadline [of fs a addrs n rnd E w x w'] by blast
  from h show "now w + max 60000000000 (sint (Deadline a)) \<le> now w'"
    using main_returns_after_deadline [of fs a addrs n rnd E w x w'] by blast
qed

theorem deadline_floor_witness:
  "main_deadline \<lparr>Deadline = 0, Addresses = ''hosts''\<rparr>
     = \<lparr>Deadline = 60000000000, Addresses = ''hosts''\<rparr>
   \<and> main 7 (hosts_file [''10.0.0.1:6379'']) draws_zero env_never_saves
       \<lparr>Deadline = 0, Addresses = ''hosts''\<rparr> (start 0) =
     main_exit 60000000000
       (do 7 env_never_saves \<lparr>deadline = 60000000000\<rparr> [''10.0.0.1:6379''] (start 0))
   \<and> now (snd (main 7 (hosts_file [''10.0.0.1:6379'']) draws_zero env_never_saves
       \<lparr>Deadline = 0, Addresses = ''hosts''\<rparr> (start 0))) = 60000000000
   \<and> main_deadline \<lparr>Deadline = 90000000000, Addresses = ''hosts''\<rparr>
     = \<lparr>Deadline = 90000000000, Addresses = ''hosts''\<rparr>
   \<and> main 10 (hosts_file [''10.0.0.1:6379'']) draws_zero env_never_saves
       \<lparr>Deadline = 90000000000, Addresses = ''hosts''\<rparr> (start 0) =
     main_exit 90000000000
       (do 10 env_never_saves \<lparr>deadline = 90000000000\<rparr> [''10.0.0.1:6379''] (start 0))
   \<and> 90000000000 \<le> now (snd (main 10 (hosts_file [''10.0.0.1:6379'']) draws_zero env_never_saves
       \<lparr>Deadline = 90000000000, Addresses = ''hosts''\<rparr> (start 0)))"
proof -
  let ?fs = "hosts_file [''10.0.0.1:6379'']" and ?rnd = draws_zero
  let ?a = "\<lparr>Deadline = 0, Addresses = ''hosts''\<rparr>"
  let ?b = "\<lparr>Deadline = 90000000000, Addresses = ''hosts''\<rparr>"
  let ?ma = "main 7 ?fs ?rnd env_never_saves ?a (start 0)"
  let ?mb = "main 10 ?fs ?rnd env_never_saves ?b (start 0)"
  note floor = deadline_floor
  have rl: "readLines ?fs ''hosts'' = ([''10.0.0.1:6379''], None)"
    by (rule readLines_hosts_one)
  have a: "main_deadline ?a = \<lparr>Deadline = 60000000000, Addresses = ''hosts''\<rparr>"
    and ra: "?ma = main_exit 60000000000
      (do 7 env_never_saves \<lparr>deadline = 60000000000\<rparr> [''10.0.0.1:6379''] (start 0))"
    using floor [of ?a ?fs "[''10.0.0.1:6379'']" 7 ?rnd env_never_saves "start 0"] rl
    by (simp_all add: shuffle_one start_def)
  have na: "now (snd ?ma) = 60000000000"
    unfolding run_main_zero by simp
  have b: "main_deadline ?b = ?b"
    and rb: "?mb = main_exit 90000000000
      (do 10 env_never_saves \<lparr>deadline = 90000000000\<rparr> [''10.0.0.1:6379''] (start 0))"
    using floor [of ?b ?fs "[''10.0.0.1:6379'']" 10 ?rnd env_never_saves "start 0"] rl
    by (simp_all add: shuffle_one start_def)
  have mb: "?mb = (Ret Exit0, snd ?mb)"
    using run_main_ninety by (cases ?mb) simp
  have rl': "readLines ?fs (Addresses ?b) = ([''10.0.0.1:6379''], None)"
    and ne: "[''10.0.0.1:6379''] \<noteq> []"
    by (simp_all add: readLines_hosts_one)
  have "now (start 0) + max 60000000000 (sint (Deadline ?b)) \<le> now (snd ?mb)"
    using floor [of ?b ?fs "[''10.0.0.1:6379'']" 10 ?rnd env_never_saves "start 0" Exit0 "snd ?mb"]
      rl' ne mb
    by blast
  then have nb: "90000000000 \<le> now (snd ?mb)"
    by (simp add: start_def)
  from a ra na b rb nb show ?thesis by blast
qed

section \<open>The error of the context on its way up\<close>









section \<open>Reading the list of endpoints\<close>

lemma scan_loop_eq: "scan_loop out ls = out @ map TrimSpace ls"
  by (induction ls arbitrary: out) simp_all

lemma readLines_lines: "fs name = Inr f \<Longrightarrow> fst (readLines fs name) = map TrimSpace (file_lines f)"
  by (simp add: readLines_def scan_loop_eq)

lemma trim_runes_no_prefix:
  "e \<in> set es \<Longrightarrow> e \<noteq> [] \<Longrightarrow> \<not> prefix e (trim_runes es s)"
proof (induction es s rule: trim_runes.induct)
  case (1 es s)
  show ?case
  proof (cases "find (\<lambda>e. e \<noteq> [] \<and> prefix e s) es")
    case None
    then have "trim_runes es s = s"
      by (simp add: trim_runes.simps [of es s])
    moreover from None 1(2,3) have "\<not> prefix e s"
      by (auto simp: find_None_iff)
    ultimately show ?thesis by simp
  next
    case (Some e')
    then have "trim_runes es s = trim_runes es (drop (length e') s)"
      by (simp add: trim_runes.simps [of es s])
    with 1(1) [OF Some 1(2,3)] show ?thesis by simp
  qed
qed

lemma trim_runes_suffix: "suffix (trim_runes es s) s"
proof (induction es s rule: trim_runes.induct)
  case (1 es s)
  show ?case
  proof (cases "find (\<lambda>e. e \<noteq> [] \<and> prefix e s) es")
    case None
    then show ?thesis
      by (simp add: trim_runes.simps [of es s])
  next
    case (Some e')
    then have "trim_runes es s = trim_runes es (drop (length e') s)"
      by (simp add: trim_runes.simps [of es s])
    with 1 [OF Some] have "suffix (trim_runes es s) (drop (length e') s)"
      by simp
    then show ?thesis
      by (blast intro: suffix_order.trans suffix_drop)
  qed
qed

lemma space_runes_not_Nil: "e \<in> set space_runes \<Longrightarrow> e \<noteq> []"
  by (auto simp: space_runes_def)

lemma TrimSpace_trimmed:
  assumes "e \<in> set space_runes"
  shows "\<not> prefix e (TrimSpace s) \<and> \<not> suffix e (TrimSpace s)"
proof -
  let ?x = "trim_runes space_runes s"
  let ?y = "trim_runes (map rev space_runes) (rev ?x)"
  note ne = space_runes_not_Nil [OF assms]
  have "suffix ?y (rev ?x)"
    by (rule trim_runes_suffix)
  then have "prefix (rev ?y) ?x"
    by (simp add: suffix_to_prefix)
  moreover have "\<not> prefix e ?x"
    using assms ne by (rule trim_runes_no_prefix)
  ultimately have a: "\<not> prefix e (rev ?y)"
    by (blast intro: prefix_order.trans)
  have "rev e \<in> set (map rev space_runes)" and "rev e \<noteq> []"
    using assms ne by simp_all
  then have "\<not> prefix (rev e) ?y"
    by (rule trim_runes_no_prefix)
  then have b: "\<not> suffix e (rev ?y)"
    by (simp add: suffix_to_prefix)
  from a b show ?thesis
    by (simp add: TrimSpace_def)
qed

lemma main_no_addresses:
  assumes "readLines fs (Addresses a) = ([], None)"
  shows "main n fs rnd E a w = (Ret Exit1, Printf (LogFatal (ErrorsNew ''empty addresses'')) w)"
  using assms
  by (simp add: main_def Let_def Addresses_main_deadline shuffle_def do_def)

text \<open>A file of one line of three spaces: the run works on the empty address.\<close>

lemma run_main_blank:
  "main 7 (hosts_file [''   '']) draws_zero env_never_saves
     \<lparr>Deadline = 0, Addresses = ''hosts''\<rparr> (start 0) =
   (Ret Exit0,
    \<lparr>now = 60000000000,
     trace =
       [(1000000, EvDial [] 5000000000 None),
        (2000000, EvErr [] CONFIG_SET_SAVE_EMPTY None),
        (2000000, EvClose []),
        (3000000, EvDial [] 15000000000 None),
        (4000000, EvInt [] LASTSAVE (Inr 100)),
        (5000000, EvErr [] BGSAVE None),
        (10005000000, EvWake WakeChan),
        (10006000000, EvInt [] LASTSAVE (Inr 100)),
        (20005000000, EvWake WakeChan),
        (20006000000, EvInt [] LASTSAVE (Inr 100)),
        (30005000000, EvWake WakeChan),
        (30006000000, EvInt [] LASTSAVE (Inr 100)),
        (40005000000, EvWake WakeChan),
        (40006000000, EvInt [] LASTSAVE (Inr 100)),
        (50005000000, EvWake WakeChan),
        (50006000000, EvInt [] LASTSAVE (Inr 100)),
        (60000000000, EvWake WakeDone),
        (60000000000, EvClose []),
        (60000000000, EvLog (LogErr [] DeadlineExceeded)),
        (60000000000, EvLog (LogDeadline 60000000000))]\<rparr>)"
  by (simp add: main_def main_deadline_def word_sless_alt Minute_def WithTimeout_def
      shuffle_one run_defs env_never_saves_def)

lemma run_read_blank:
  "readLines (hosts_file [''10.0.0.1:6379'', ''   '', [], ''10.0.0.2:6379'']) ''hosts'' =
   ([''10.0.0.1:6379'', [], [], ''10.0.0.2:6379''], None)"
  by (simp add: run_defs)

text \<open>
  Claim C7, as the spec has it, fails: a blank line and a line of white space stay in the
  list of endpoints, as the empty address, and a file of nothing but such lines is no setup
  error: the run connects to the empty address.
\<close>

theorem blank_lines_become_endpoints:
  "fst (readLines (hosts_file [''10.0.0.1:6379'', ''   '', [], ''10.0.0.2:6379'']) ''hosts'')
     = [''10.0.0.1:6379'', [], [], ''10.0.0.2:6379'']
   \<and> fst (main 7 (hosts_file [''   '']) draws_zero env_never_saves
         \<lparr>Deadline = 0, Addresses = ''hosts''\<rparr> (start 0)) = Ret Exit0
   \<and> hd (trace (snd (main 7 (hosts_file [''   '']) draws_zero env_never_saves
         \<lparr>Deadline = 0, Addresses = ''hosts''\<rparr> (start 0))))
       = (1000000, EvDial [] 5000000000 None)"
  unfolding run_main_blank run_read_blank by simp

text \<open>
  Claim C7, amended. \<^verbatim>\<open>readLines\<close> returns one entry for every line of the file, in the
  order of the file: the line without the white space at its two ends (no entry starts or
  ends with the encoding of a white space rune), so a line of nothing but white space
  gives the empty address. The list is empty exactly when the file has no line; then, the
  file having been read without error, the run ends with the error \<^verbatim>\<open>empty addresses\<close>,
  logged as fatal, and nothing else has happened: no connection was made.
\<close>

theorem readLines_keeps_every_line:
  "(fs name = Inr f \<longrightarrow>
      fst (readLines fs name) = map TrimSpace (file_lines f)
      \<and> (fst (readLines fs name) = [] \<longleftrightarrow> file_lines f = []))
   \<and> (e \<in> set space_runes \<longrightarrow> \<not> prefix e (TrimSpace s) \<and> \<not> suffix e (TrimSpace s))
   \<and> (readLines fs (Addresses a) = ([], None) \<longrightarrow>
        main n fs rnd E a w = (Ret Exit1, Printf (LogFatal (ErrorsNew ''empty addresses'')) w))"
proof (intro conjI impI)
  assume "fs name = Inr f"
  then show "fst (readLines fs name) = map TrimSpace (file_lines f)"
    by (rule readLines_lines)
next
  assume "fs name = Inr f"
  then show "fst (readLines fs name) = [] \<longleftrightarrow> file_lines f = []"
    by (simp add: readLines_lines)
next
  assume "e \<in> set space_runes"
  then show "\<not> prefix e (TrimSpace s)"
    by (simp add: TrimSpace_trimmed)
next
  assume "e \<in> set space_runes"
  then show "\<not> suffix e (TrimSpace s)"
    by (simp add: TrimSpace_trimmed)
next
  assume "readLines fs (Addresses a) = ([], None)"
  then show "main n fs rnd E a w = (Ret Exit1, Printf (LogFatal (ErrorsNew ''empty addresses'')) w)"
    by (rule main_no_addresses)
qed

theorem readLines_keeps_every_line_witness:
  "fst (readLines (hosts_file ['' 10.0.0.1:6379 '', ''   '']) ''hosts'') = [''10.0.0.1:6379'', []]
   \<and> \<not> prefix '' '' (TrimSpace '' 10.0.0.1:6379 '')
   \<and> \<not> suffix '' '' (TrimSpace '' 10.0.0.1:6379 '')
   \<and> main 7 (hosts_file []) draws_zero env_never_saves \<lparr>Deadline = 0, Addresses = ''hosts''\<rparr> (start 0)
       = (Ret Exit1, \<lparr>now = 0, trace = [(0, EvLog (LogFatal (ErrorsNew ''empty addresses'')))]\<rparr>)"
proof -
  let ?fs = "hosts_file ['' 10.0.0.1:6379 '', ''   '']"
  let ?f = "\<lparr>file_lines = ['' 10.0.0.1:6379 '', ''   ''], scan_err = None\<rparr>"
  let ?a = "\<lparr>Deadline = 0, Addresses = ''hosts''\<rparr>"
  note lines = readLines_keeps_every_line
  have fs: "?fs ''hosts'' = Inr ?f"
    by (simp add: hosts_file_def)
  have "fst (readLines ?fs ''hosts'') = map TrimSpace (file_lines ?f)"
    using lines [of ?fs "''hosts''" ?f] fs by blast
  then have a: "fst (readLines ?fs ''hosts'') = [''10.0.0.1:6379'', []]"
    by (simp add: run_defs)
  have sp: "'' '' \<in> set space_runes"
    by (simp add: space_runes_def)
  have b: "\<not> prefix '' '' (TrimSpace '' 10.0.0.1:6379 '') \<and> \<not> suffix '' '' (TrimSpace '' 10.0.0.1:6379 '')"
    using lines [of _ _ _ "'' ''" "'' 10.0.0.1:6379 ''"] sp by blast
  have rl: "readLines (hosts_file []) (Addresses ?a) = ([], None)"
    by (simp add: run_defs)
  have "main 7 (hosts_file []) draws_zero env_never_saves ?a (start 0)
      = (Ret Exit1, Printf (LogFatal (ErrorsNew ''empty addresses'')) (start 0))"
    using lines [of "hosts_file []" _ _ _ _ ?a 7 draws_zero env_never_saves "start 0"] rl by blast
  then have c: "main 7 (hosts_file []) draws_zero env_never_saves ?a (start 0)
      = (Ret Exit1, \<lparr>now = 0, trace = [(0, EvLog (LogFatal (ErrorsNew ''empty addresses'')))]\<rparr>)"
    by (simp add: start_def Printf_eval)
  from a b c show ?thesis by blast
qed

section \<open>What the deadline interrupts\<close>

lemma select_wait_deadline_first:
  "now w < f \<Longrightarrow> deadline c < f \<Longrightarrow>
   select_wait E c f w = (WakeDone, emit (EvWake WakeDone) (w\<lparr>now := max (now w) (deadline c)\<rparr>))"
  by (auto simp: select_wait_def Let_def max_def min_def)

lemma select_wait_bound: "select_wait E c f w = (k, w1) \<Longrightarrow> now w1 \<le> max (now w) (deadline c)"
  by (auto simp: select_wait_def Let_def emit_def)

lemma loop_cut:
  assumes "now w < next_tick t" and "deadline c < next_tick t"
  shows "saveBlocking_loop (Suc n) E c addr prev t w =
     (Ret (Some DeadlineExceeded), emit (EvWake WakeDone) (w\<lparr>now := max (now w) (deadline c)\<rparr>))"
  using select_wait_deadline_first [OF assms, of E]
  by (simp add: ctx_Err_def ctx_Done_def emit_def)

lemma wait_cut:
  assumes "do_pass (Suc n) E c addrs w = (Ret Continue, w1)"
    and "deadline c < now w1 + 10000000000"
  shows "do_loop (Suc n) E c addrs w =
     (Ret (Some DeadlineExceeded), emit (EvWake WakeDone) (w1\<lparr>now := max (now w1) (deadline c)\<rparr>))"
proof -
  have "now w1 < now w1 + sint (10 * Second)" and "deadline c < now w1 + sint (10 * Second)"
    using assms(2) by (simp_all add: sint_10_Second)
  from select_wait_deadline_first [OF this, of E] assms(1) show ?thesis
    by (simp add: ctx_Err_def ctx_Done_def emit_def)
qed

lemma saveBlocking_start_any_ctx: "saveBlocking 0 E c addr w = saveBlocking 0 E c' addr w"
  by (simp add: saveBlocking_def split: prod.split option.split sum.split)

lemma shuffle_id: "shuffle draws_same xs = xs"
proof -
  have "fold (shuffle_step draws_same) is ys = ys" for "is" and ys :: "'a list"
    by (induction "is" arbitrary: ys) (simp_all add: shuffle_step_def Intn_def draws_same_def)
  then show ?thesis by (simp add: shuffle_def)
qed

text \<open>
  Nine slow servers and a deadline of one minute: the deadline passes while the ninth
  \<^verbatim>\<open>CONFIG SET\<close> is on its way, and the run goes on for ten more seconds.
\<close>

lemma run_slow:
  "main 1 (hosts_file [''h1'', ''h2'', ''h3'', ''h4'', ''h5'', ''h6'', ''h7'', ''h8'', ''h9''])
     draws_same env_slow \<lparr>Deadline = 0, Addresses = ''hosts''\<rparr> (start 0) =
   (Ret Exit0,
    \<lparr>now = 70000000000,
     trace =
       [(3000000000, EvDial ''h1'' 5000000000 None),
        (7000000000, EvErr ''h1'' CONFIG_SET_SAVE_EMPTY None),
        (7000000000, EvClose ''h1''),
        (10000000000, EvDial ''h2'' 5000000000 None),
        (14000000000, EvErr ''h2'' CONFIG_SET_SAVE_EMPTY None),
        (14000000000, EvClose ''h2''),
        (17000000000, EvDial ''h3'' 5000000000 None),
        (21000000000, EvErr ''h3'' CONFIG_SET_SAVE_EMPTY None),
        (21000000000, EvClose ''h3''),
        (24000000000, EvDial ''h4'' 5000000000 None),
        (28000000000, EvErr ''h4'' CONFIG_SET_SAVE_EMPTY None),
        (28000000000, EvClose ''h4''),
        (31000000000, EvDial ''h5'' 5000000000 None),
        (35000000000, EvErr ''h5'' CONFIG_SET_SAVE_EMPTY None),
        (35000000000, EvClose ''h5''),
        (38000000000, EvDial ''h6'' 5000000000 None),
        (42000000000, EvErr ''h6'' CONFIG_SET_SAVE_EMPTY None),
        (42000000000, EvClose ''h6''),
        (45000000000, EvDial ''h7'' 5000000000 None),
        (49000000000, EvErr ''h7'' CONFIG_SET_SAVE_EMPTY None),
        (49000000000, EvClose ''h7''),
        (52000000000, EvDial ''h8'' 5000000000 None),
        (56000000000, EvErr ''h8'' CONFIG_SET_SAVE_EMPTY None),
        (56000000000, EvClose ''h8''),
        (59000000000, EvDial ''h9'' 5000000000 None),
        (63000000000, EvErr ''h9'' CONFIG_SET_SAVE_EMPTY None),
        (63000000000, EvClose ''h9''),
        (66000000000, EvDial ''h1'' 15000000000 None),
        (70000000000, EvInt ''h1'' LASTSAVE (Inl ''connection reset by peer'')),
        (70000000000, EvClose ''h1''),
        (70000000000, EvLog (LogErr ''h1'' (ExtError ''connection reset by peer''))),
        (70000000000, EvLog (LogDeadline 60000000000))]\<rparr>)"
  by (simp add: main_def main_deadline_def word_sless_alt Minute_def WithTimeout_def
      shuffle_id run_defs env_slow_def)

text \<open>
  Claim C4, as the spec has it, fails for the network steps: they do not race against the
  signal. With a deadline 60 seconds after the start, the command sent at 59 seconds is
  answered at 63 seconds, a new connection is then opened and answers at 66 seconds, the
  read that follows lasts until 70 seconds, and only then the run ends.
\<close>

theorem network_steps_outlast_deadline:
  "fst (main 1 (hosts_file [''h1'', ''h2'', ''h3'', ''h4'', ''h5'', ''h6'', ''h7'', ''h8'', ''h9''])
         draws_same env_slow \<lparr>Deadline = 0, Addresses = ''hosts''\<rparr> (start 0)) = Ret Exit0
   \<and> now (snd (main 1 (hosts_file [''h1'', ''h2'', ''h3'', ''h4'', ''h5'', ''h6'', ''h7'', ''h8'', ''h9''])
         draws_same env_slow \<lparr>Deadline = 0, Addresses = ''hosts''\<rparr> (start 0))) = 70000000000
   \<and> (63000000000, EvErr ''h9'' CONFIG_SET_SAVE_EMPTY None)
       \<in> set (trace (snd (main 1 (hosts_file [''h1'', ''h2'', ''h3'', ''h4'', ''h5'', ''h6'', ''h7'', ''h8'', ''h9''])
         draws_same env_slow \<lparr>Deadline = 0, Addresses = ''hosts''\<rparr> (start 0))))
   \<and> (66000000000, EvDial ''h1'' 15000000000 None)
       \<in> set (trace (snd (main 1 (hosts_file [''h1'', ''h2'', ''h3'', ''h4'', ''h5'', ''h6'', ''h7'', ''h8'', ''h9''])
         draws_same env_slow \<lparr>Deadline = 0, Addresses = ''hosts''\<rparr> (start 0))))
   \<and> (70000000000, EvLog (LogDeadline 60000000000))
       \<in> set (trace (snd (main 1 (hosts_file [''h1'', ''h2'', ''h3'', ''h4'', ''h5'', ''h6'', ''h7'', ''h8'', ''h9''])
         draws_same env_slow \<lparr>Deadline = 0, Addresses = ''hosts''\<rparr> (start 0))))"
  unfolding run_slow by simp

text \<open>
  Claim C4, amended. The two waits race against the signal and end at the deadline: the
  wait for the next tick in saveBlocking, when the deadline comes before the tick, ends at
  the deadline (at once when it has passed) with the error of the context, and so does the
  wait of 10 seconds between two passes; no such wait ends later than the deadline, or than
  the moment it began when the deadline had passed by then. The network steps do not race
  against the signal: what saveBlocking does up to the save trigger is the same for every
  context, and disablePersistence is given no context at all.
\<close>

theorem waits_race_against_deadline:
  "(now w < next_tick t \<and> deadline c < next_tick t \<longrightarrow>
      saveBlocking_loop (Suc n) E c addr prev t w =
        (Ret (Some DeadlineExceeded),
         emit (EvWake WakeDone) (w\<lparr>now := max (now w) (deadline c)\<rparr>)))
   \<and> (do_pass (Suc n) E c addrs w = (Ret Continue, w1) \<and> deadline c < now w1 + 10000000000 \<longrightarrow>
      do_loop (Suc n) E c addrs w =
        (Ret (Some DeadlineExceeded),
         emit (EvWake WakeDone) (w1\<lparr>now := max (now w1) (deadline c)\<rparr>)))
   \<and> (select_wait E c f w = (k, w2) \<longrightarrow> now w2 \<le> max (now w) (deadline c))
   \<and> saveBlocking 0 E c addr w = saveBlocking 0 E c' addr w"
proof (intro conjI impI)
  assume "now w < next_tick t \<and> deadline c < next_tick t"
  then show "saveBlocking_loop (Suc n) E c addr prev t w =
      (Ret (Some DeadlineExceeded), emit (EvWake WakeDone) (w\<lparr>now := max (now w) (deadline c)\<rparr>))"
    using loop_cut [of w t c n E addr prev] by blast
next
  assume "do_pass (Suc n) E c addrs w = (Ret Continue, w1) \<and> deadline c < now w1 + 10000000000"
  then show "do_loop (Suc n) E c addrs w =
      (Ret (Some DeadlineExceeded), emit (EvWake WakeDone) (w1\<lparr>now := max (now w1) (deadline c)\<rparr>))"
    using wait_cut [of n E c addrs w w1] by blast
next
  assume "select_wait E c f w = (k, w2)"
  then show "now w2 \<le> max (now w) (deadline c)"
    by (rule select_wait_bound)
next
  show "saveBlocking 0 E c addr w = saveBlocking 0 E c' addr w"
    by (rule saveBlocking_start_any_ctx)
qed

theorem waits_race_against_deadline_witness:
  "saveBlocking_loop 1 env_never_saves \<lparr>deadline = 60000000000\<rparr> ''10.0.0.1:6379'' 100
       \<lparr>period = 10000000000, next_tick = 60005000000\<rparr> \<lparr>now = 50006000000, trace = []\<rparr> =
     (Ret (Some DeadlineExceeded),
      \<lparr>now = 60000000000, trace = [(60000000000, EvWake WakeDone)]\<rparr>)
   \<and> fst (do_loop 2 env_saves \<lparr>deadline = 25000000000\<rparr> [''10.0.0.1:6379'']
         (do_disable env_saves [''10.0.0.1:6379''] (start 0))) = Ret (Some DeadlineExceeded)
   \<and> now (snd (do_loop 2 env_saves \<lparr>deadline = 25000000000\<rparr> [''10.0.0.1:6379'']
         (do_disable env_saves [''10.0.0.1:6379''] (start 0)))) = 25000000000
   \<and> now (snd (select_wait env_never_saves \<lparr>deadline = 60000000000\<rparr> 60005000000
         \<lparr>now = 50006000000, trace = []\<rparr>)) \<le> 60000000000
   \<and> saveBlocking 0 env_slow \<lparr>deadline = 60000000000\<rparr> ''h1'' (start 0)
       = saveBlocking 0 env_slow \<lparr>deadline = 0\<rparr> ''h1'' (start 0)"
proof -
  let ?E = env_never_saves and ?c = "\<lparr>deadline = 60000000000\<rparr>"
  let ?h = "''10.0.0.1:6379''"
  let ?t = "\<lparr>period = 10000000000, next_tick = 60005000000\<rparr>"
  let ?w = "\<lparr>now = 50006000000, trace = []\<rparr>"
  note race = waits_race_against_deadline
  have "now ?w < next_tick ?t \<and> deadline ?c < next_tick ?t"
    by simp
  then have "saveBlocking_loop (Suc 0) ?E ?c ?h 100 ?t ?w =
      (Ret (Some DeadlineExceeded), emit (EvWake WakeDone) (?w\<lparr>now := max (now ?w) (deadline ?c)\<rparr>))"
    using race [of ?w ?t ?c 0 ?E ?h 100] by blast
  then have a: "saveBlocking_loop 1 ?E ?c ?h 100 ?t ?w =
      (Ret (Some DeadlineExceeded), \<lparr>now = 60000000000, trace = [(60000000000, EvWake WakeDone)]\<rparr>)"
    by (simp add: emit_def del: saveBlocking_loop.simps)
  let ?S = env_saves and ?d = "\<lparr>deadline = 25000000000\<rparr>"
  let ?v0 = "do_disable ?S [?h] (start 0)"
  let ?v1 = "snd (do_pass (Suc 1) ?S ?d [?h] ?v0)"
  have "do_pass (Suc 1) ?S ?d [?h] ?v0 = (Ret Continue, ?v1)"
    and nv: "now ?v1 = 20006000000"
    by (simp_all add: run_defs env_saves_def)
  then have "do_pass (Suc 1) ?S ?d [?h] ?v0 = (Ret Continue, ?v1)
      \<and> deadline ?d < now ?v1 + 10000000000"
    by (simp only: ctx.select_convs) simp
  then have "do_loop (Suc 1) ?S ?d [?h] ?v0 =
      (Ret (Some DeadlineExceeded),
       emit (EvWake WakeDone) (?v1\<lparr>now := max (now ?v1) (deadline ?d)\<rparr>))"
    using race [of ?v0 _ ?d 1 ?S _ _ "[?h]" ?v1] by blast
  then have loop: "do_loop 2 ?S ?d [?h] ?v0 =
      (Ret (Some DeadlineExceeded),
       emit (EvWake WakeDone) (?v1\<lparr>now := max (now ?v1) (deadline ?d)\<rparr>))"
    by (simp only: Suc_1)
  have b: "fst (do_loop 2 ?S ?d [?h] ?v0) = Ret (Some DeadlineExceeded)"
    by (simp only: loop fst_conv)
  have "now (snd (do_loop 2 ?S ?d [?h] ?v0)) = max (now ?v1) (deadline ?d)"
    by (simp only: loop snd_conv) (simp add: emit_def del: do_pass.simps)
  then have c: "now (snd (do_loop 2 ?S ?d [?h] ?v0)) = 25000000000"
    by (simp only: nv ctx.select_convs)
  have "select_wait ?E ?c 60005000000 ?w
      = (fst (select_wait ?E ?c 60005000000 ?w), snd (select_wait ?E ?c 60005000000 ?w))"
    by simp
  then have "now (snd (select_wait ?E ?c 60005000000 ?w)) \<le> max (now ?w) (deadline ?c)"
    using race [of ?w _ ?c _ ?E _ _ _ _ 60005000000 "fst (select_wait ?E ?c 60005000000 ?w)"
        "snd (select_wait ?E ?c 60005000000 ?w)"] by blast
  then have d: "now (snd (select_wait ?E ?c 60005000000 ?w)) \<le> 60000000000"
    by simp
  have e: "saveBlocking 0 env_slow ?c ''h1'' (start 0)
      = saveBlocking 0 env_slow \<lparr>deadline = 0\<rparr> ''h1'' (start 0)"
    using race [of "start 0" _ ?c _ env_slow "''h1''" _ _ _ _ _ _ "\<lparr>deadline = 0\<rparr>"] by blast
  from a b c d e show ?thesis by blast
qed

end
